theory Spec2Isabelle
  imports Complex_Main
begin

section \<open>JavaScript numbers\<close>

text \<open>
  Both calculators compute with JavaScript numbers. A number is modelled as a finite
  real or one of the three special values of IEEE arithmetic. Finite arithmetic is
  exact here: rounding, overflow to an infinity and underflow are not part of the model,
  and the two zeros are identified (a division by zero treats the divisor as \<open>+0\<close>).
  The special values follow the rules of the language: a \<open>NaN\<close> operand gives
  \<open>NaN\<close>, every comparison with \<open>NaN\<close> is false, \<open>x / 0\<close> is an infinity or
  \<open>NaN\<close>, and so on.
\<close>

datatype number = Fin real | PInf | NInf | NaN

instantiation number :: "{zero,one,plus,minus,uminus,times,inverse,abs,ord}"
begin

definition zero_number :: number where
  "0 = Fin 0"

definition one_number :: number where
  "1 = Fin 1"

fun plus_number :: "number \<Rightarrow> number \<Rightarrow> number" where
  "Fin a + Fin b = Fin (a + b)"
| "NaN + _ = NaN"
| "_ + NaN = NaN"
| "PInf + NInf = NaN"
| "NInf + PInf = NaN"
| "PInf + _ = PInf"
| "_ + PInf = PInf"
| "NInf + _ = NInf"
| "_ + NInf = NInf"

fun uminus_number :: "number \<Rightarrow> number" where
  "- Fin a = Fin (- a)"
| "- PInf = NInf"
| "- NInf = PInf"
| "- NaN = NaN"

definition minus_number :: "number \<Rightarrow> number \<Rightarrow> number" where
  "a - b = a + (- b :: number)"

fun times_number :: "number \<Rightarrow> number \<Rightarrow> number" where
  "Fin a * Fin b = Fin (a * b)"
| "NaN * _ = NaN"
| "_ * NaN = NaN"
| "PInf * Fin b = (if b = 0 then NaN else if 0 < b then PInf else NInf)"
| "NInf * Fin b = (if b = 0 then NaN else if 0 < b then NInf else PInf)"
| "Fin a * PInf = (if a = 0 then NaN else if 0 < a then PInf else NInf)"
| "Fin a * NInf = (if a = 0 then NaN else if 0 < a then NInf else PInf)"
| "PInf * PInf = PInf"
| "PInf * NInf = NInf"
| "NInf * PInf = NInf"
| "NInf * NInf = PInf"

fun divide_number :: "number \<Rightarrow> number \<Rightarrow> number" where
  "divide_number (Fin a) (Fin b) =
     (if b = 0 then (if a = 0 then NaN else if 0 < a then PInf else NInf)
      else Fin (a / b))"
| "divide_number NaN _ = NaN"
| "divide_number _ NaN = NaN"
| "divide_number (Fin a) PInf = Fin 0"
| "divide_number (Fin a) NInf = Fin 0"
| "divide_number PInf (Fin b) = (if 0 \<le> b then PInf else NInf)"
| "divide_number NInf (Fin b) = (if 0 \<le> b then NInf else PInf)"
| "divide_number PInf PInf = NaN"
| "divide_number PInf NInf = NaN"
| "divide_number NInf PInf = NaN"
| "divide_number NInf NInf = NaN"

definition inverse_number :: "number \<Rightarrow> number" where
  "inverse a = divide (Fin 1) (a :: number)"

fun abs_number :: "number \<Rightarrow> number" where
  "\<bar>Fin a\<bar> = Fin \<bar>a\<bar>"
| "\<bar>PInf\<bar> = PInf"
| "\<bar>NInf\<bar> = PInf"
| "\<bar>NaN\<bar> = NaN"

fun less_number :: "number \<Rightarrow> number \<Rightarrow> bool" where
  "Fin a < Fin b = (a < b)"
| "NaN < _ = False"
| "_ < NaN = False"
| "_ < NInf = False"
| "PInf < _ = False"
| "NInf < _ = True"
| "_ < PInf = True"

fun less_eq_number :: "number \<Rightarrow> number \<Rightarrow> bool" where
  "Fin a \<le> Fin b = (a \<le> b)"
| "NaN \<le> _ = False"
| "_ \<le> NaN = False"
| "NInf \<le> _ = True"
| "_ \<le> PInf = True"
| "_ \<le> NInf = False"
| "PInf \<le> _ = False"

instance ..

end

text \<open>\<open>Number.isNaN\<close>, and the truthiness that \<open>v || 0\<close> tests.\<close>

definition Number_isNaN :: "number \<Rightarrow> bool" where
  "Number_isNaN v = (v = NaN)"

definition or_zero :: "number \<Rightarrow> number" where
  "or_zero v = (if v = NaN \<or> v = Fin 0 then Fin 0 else v)"

text \<open>The functions of \<open>Math\<close> that the calculators call.\<close>

fun Math_sqrt :: "number \<Rightarrow> number" where
  "Math_sqrt (Fin a) = (if a < 0 then NaN else Fin (sqrt a))"
| "Math_sqrt PInf = PInf"
| "Math_sqrt NInf = NaN"
| "Math_sqrt NaN = NaN"

definition is_inf :: "number \<Rightarrow> bool" where
  "is_inf v = (v = PInf \<or> v = NInf)"

text \<open>\<open>Math.hypot\<close> answers \<open>Infinity\<close> when an argument is infinite, even beside a \<open>NaN\<close>.\<close>

fun Math_hypot2 :: "number \<Rightarrow> number \<Rightarrow> number" where
  "Math_hypot2 (Fin a) (Fin b) = Fin (sqrt (a * a + b * b))"
| "Math_hypot2 a b = (if is_inf a \<or> is_inf b then PInf else NaN)"

fun Math_hypot3 :: "number \<Rightarrow> number \<Rightarrow> number \<Rightarrow> number" where
  "Math_hypot3 (Fin a) (Fin b) (Fin c) = Fin (sqrt (a * a + b * b + c * c))"
| "Math_hypot3 a b c = (if is_inf a \<or> is_inf b \<or> is_inf c then PInf else NaN)"

text \<open>\<open>Math.pow(v, 2)\<close> and \<open>Math.pow(v, 1.5)\<close>, the two uses of \<open>Math.pow\<close>.\<close>

fun Math_pow_2 :: "number \<Rightarrow> number" where
  "Math_pow_2 (Fin a) = Fin (a * a)"
| "Math_pow_2 PInf = PInf"
| "Math_pow_2 NInf = PInf"
| "Math_pow_2 NaN = NaN"

fun Math_pow_1_5 :: "number \<Rightarrow> number" where
  "Math_pow_1_5 (Fin a) = (if a < 0 then NaN else Fin (a powr (3 / 2)))"
| "Math_pow_1_5 PInf = PInf"
| "Math_pow_1_5 NInf = PInf"
| "Math_pow_1_5 NaN = NaN"

fun Math_max :: "number \<Rightarrow> number \<Rightarrow> number" where
  "Math_max NaN _ = NaN"
| "Math_max _ NaN = NaN"
| "Math_max a b = (if a < b then b else a)"

fun Math_min :: "number \<Rightarrow> number \<Rightarrow> number" where
  "Math_min NaN _ = NaN"
| "Math_min _ NaN = NaN"
| "Math_min a b = (if b < a then b else a)"

section \<open>Results\<close>

text \<open>
  \<open>ellipticKE\<close> throws an \<open>Error\<close> for a parameter outside \<open>[0, 1)\<close>; it is the only
  \<open>throw\<close> of the two files. A call either returns a value, throws (\<open>Inl\<close>), or, since
  the loop of \<open>ellipticKE\<close> has no iteration cap, does not return (\<open>None\<close>).
\<close>

datatype error = DomainError

type_synonym 'a result = "(error + 'a) option"

definition returns :: "'a \<Rightarrow> 'a result" where
  "returns v = Some (Inr v)"

definition throws :: "error \<Rightarrow> 'a result" where
  "throws e = Some (Inl e)"

definition and_then :: "'a result \<Rightarrow> ('a \<Rightarrow> 'b result) \<Rightarrow> 'b result" where
  "and_then r k = (case r of None \<Rightarrow> None | Some (Inl e) \<Rightarrow> Some (Inl e) | Some (Inr v) \<Rightarrow> k v)"

type_synonym vec = "number \<times> number \<times> number"

section \<open>The complete elliptic integrals by the arithmetic-geometric mean\<close>

definition tol :: number where
  "tol = Fin (1 / 10 ^ 14)"

text \<open>
  The \<open>while\<close> loop of \<open>ellipticKE\<close> on its five variables; the result is their final
  values.
\<close>

partial_function (option) agm_loop ::
  "number \<Rightarrow> number \<Rightarrow> number \<Rightarrow> number \<Rightarrow> number \<Rightarrow> (number \<times> number \<times> number \<times> number \<times> number) option"
where
  "agm_loop a b c sumv pow =
     (if tol * a < \<bar>c\<bar> then
        (let an = (a + b) / Fin 2;
             bn = Math_sqrt (a * b);
             c' = (a - b) / Fin 2;
             sumv' = sumv + pow * c' * c';
             pow' = pow * Fin 2
         in agm_loop an bn c' sumv' pow')
      else Some (a, b, c, sumv, pow))"

definition ellipticKE :: "number \<Rightarrow> (number \<times> number) result" where
  "ellipticKE m =
     (if m < Fin 0 \<or> Fin 1 \<le> m then throws DomainError
      else
        (let a = Fin 1;
             b = Math_sqrt (Fin 1 - m);
             c = a - b
         in case agm_loop a b c (Fin 0) (Fin 1) of
              None \<Rightarrow> None
            | Some (a', b', c', sumv, pow) \<Rightarrow>
                (let K = Fin pi / (Fin 2 * a');
                     E = K * (Fin 1 - sumv)
                 in returns (K, E))))"


text \<open>
  The same routine when every arithmetic result and every constant that is not a small
  integer is rounded: \<open>rnd\<close> maps a real to the number that stands for it. A rounding
  function has relative error at most \<open>2\<^sup>-\<^sup>5\<^sup>3\<close>, as rounding to the nearest double has
  where nothing overflows or underflows; the identity is one, and gives the exact
  routine above.
\<close>

definition unit_roundoff :: real where
  "unit_roundoff = 1 / 2 ^ 53"

definition rounding :: "(real \<Rightarrow> real) \<Rightarrow> bool" where
  "rounding rnd \<longleftrightarrow> (\<forall>x. \<bar>rnd x - x\<bar> \<le> \<bar>x\<bar> * unit_roundoff)"

fun rounded :: "(real \<Rightarrow> real) \<Rightarrow> number \<Rightarrow> number" where
  "rounded rnd (Fin x) = Fin (rnd x)"
| "rounded rnd v = v"

partial_function (option) agm_loop_rounded ::
  "(real \<Rightarrow> real) \<Rightarrow> number \<Rightarrow> number \<Rightarrow> number \<Rightarrow> number \<Rightarrow> number \<Rightarrow>
   (number \<times> number \<times> number \<times> number \<times> number) option"
where
  "agm_loop_rounded rnd a b c sumv pow =
     (if rounded rnd (rounded rnd tol * a) < \<bar>c\<bar> then
        (let an = rounded rnd (rounded rnd (a + b) / Fin 2);
             bn = rounded rnd (Math_sqrt (rounded rnd (a * b)));
             c' = rounded rnd (rounded rnd (a - b) / Fin 2);
             sumv' = rounded rnd (sumv + rounded rnd (rounded rnd (pow * c') * c'));
             pow' = rounded rnd (pow * Fin 2)
         in agm_loop_rounded rnd an bn c' sumv' pow')
      else Some (a, b, c, sumv, pow))"

definition ellipticKE_rounded :: "(real \<Rightarrow> real) \<Rightarrow> number \<Rightarrow> (number \<times> number) result" where
  "ellipticKE_rounded rnd m =
     (if m < Fin 0 \<or> Fin 1 \<le> m then throws DomainError
      else
        (let a = Fin 1;
             b = rounded rnd (Math_sqrt (rounded rnd (Fin 1 - m)));
             c = rounded rnd (a - b)
         in case agm_loop_rounded rnd a b c (Fin 0) (Fin 1) of
              None \<Rightarrow> None
            | Some (a', b', c', sumv, pow) \<Rightarrow>
                (let K = rounded rnd (rounded rnd (Fin pi) / rounded rnd (Fin 2 * a'));
                     E = rounded rnd (K * rounded rnd (Fin 1 - sumv))
                 in returns (K, E))))"

section \<open>The single coil: \<open>js/single_coil.js\<close>\<close>

definition mu0 :: number where
  "mu0 = Fin 4 * Fin pi * Fin (1 / 10 ^ 7)"

text \<open>Magnetic field of a circular loop centred at the origin with its axis along x.\<close>

definition loopFieldMeters ::
  "number \<Rightarrow> number \<Rightarrow> number \<Rightarrow> number \<Rightarrow> number \<Rightarrow> number \<Rightarrow> vec result"
where
  "loopFieldMeters x y z R I N =
     (let rho = Math_hypot2 y z;
          x2 = x * x
      in if rho = Fin 0 then
           (let bx = (mu0 * I * N * R * R) / (Fin 2 * Math_pow_1_5 (R * R + x2))
            in returns (bx, Fin 0, Fin 0))
         else
           (let denom2 = Math_pow_2 (R + rho) + x2;
                kSqRaw = (Fin 4 * R * rho) / denom2;
                kSq = Math_min (Fin 1 - Fin (1 / 10 ^ 14)) (Math_max (Fin 0) kSqRaw)
            in and_then (ellipticKE kSq) (\<lambda>(K, E).
                 let denom = Math_sqrt denom2;
                     factor = (mu0 * I * N) / (Fin 2 * Fin pi * denom);
                     rho2 = rho * rho;
                     aMinusRho2 = Math_pow_2 (R - rho);
                     bRho = factor * (x / rho) *
                            (- K + ((R * R + rho2 + x2) / (aMinusRho2 + x2)) * E);
                     bX = factor * (K + ((R * R - rho2 - x2) / (aMinusRho2 + x2)) * E);
                     cosPhi = y / rho;
                     sinPhi = z / rho;
                     bY = bRho * cosPhi;
                     bZ = bRho * sinPhi
                 in returns (bX, bY, bZ))))"

record field_with_grad =
  B :: vec
  Bmag :: number
  grad :: vec

text \<open>The local function \<open>magAt\<close> of \<open>coilFieldWithGrad\<close>, with the variables it closes over.\<close>

definition magAt ::
  "number \<Rightarrow> number \<Rightarrow> number \<Rightarrow> number \<Rightarrow> number \<Rightarrow> number \<Rightarrow>
   number \<Rightarrow> number \<Rightarrow> number \<Rightarrow> number result"
where
  "magAt x y z R I N dx dy dz =
     and_then (loopFieldMeters (x + dx) (y + dy) (z + dz) R I N)
       (\<lambda>(bx, by, bz). returns (Math_hypot3 bx by bz))"

definition coilFieldWithGrad ::
  "number \<Rightarrow> number \<Rightarrow> number \<Rightarrow> number \<Rightarrow> number \<Rightarrow> number \<Rightarrow> field_with_grad result"
where
  "coilFieldWithGrad x_cm y_cm z_cm R_cm I N =
     (let x = x_cm * Fin (1 / 10 ^ 2);
          y = y_cm * Fin (1 / 10 ^ 2);
          z = z_cm * Fin (1 / 10 ^ 2);
          R = R_cm * Fin (1 / 10 ^ 2)
      in and_then (loopFieldMeters x y z R I N) (\<lambda>baseB.
           let baseMag = (case baseB of (b0, b1, b2) \<Rightarrow> Math_hypot3 b0 b1 b2);
               h = Math_max (Fin (1 / 10 ^ 5)) (or_zero (R * Fin (1 / 10 ^ 4)))
           in and_then (magAt x y z R I N h (Fin 0) (Fin 0)) (\<lambda>mxp.
              and_then (magAt x y z R I N (- h) (Fin 0) (Fin 0)) (\<lambda>mxm.
              let gradX = (mxp - mxm) / (Fin 2 * h)
              in and_then (magAt x y z R I N (Fin 0) h (Fin 0)) (\<lambda>myp.
                 and_then (magAt x y z R I N (Fin 0) (- h) (Fin 0)) (\<lambda>mym.
                 let gradY = (myp - mym) / (Fin 2 * h)
                 in and_then (magAt x y z R I N (Fin 0) (Fin 0) h) (\<lambda>mzp.
                    and_then (magAt x y z R I N (Fin 0) (Fin 0) (- h)) (\<lambda>mzm.
                    let gradZ = (mzp - mzm) / (Fin 2 * h)
                    in returns \<lparr>B = baseB, Bmag = baseMag, grad = (gradX, gradY, gradZ)\<rparr>))))))))"

text \<open>
  The same function with a log of its calls of \<open>loopFieldMeters\<close>. A logged computation
  takes the calls made so far and returns its result with the calls made by then; every
  call of \<open>loopFieldMeters\<close> appends its arguments to the log. The calls are threaded in
  the order in which JavaScript evaluates them: the statements from top to bottom, and
  the left operand of a subtraction before the right one.
\<close>

type_synonym call = "number \<times> number \<times> number \<times> number \<times> number \<times> number"

type_synonym 'a logged = "call list \<Rightarrow> 'a result \<times> call list"

definition returns_logged :: "'a \<Rightarrow> 'a logged" where
  "returns_logged v calls = (returns v, calls)"

definition and_then_logged :: "'a logged \<Rightarrow> ('a \<Rightarrow> 'b logged) \<Rightarrow> 'b logged" where
  "and_then_logged m k calls =
     (case m calls of
        (None, calls') \<Rightarrow> (None, calls')
      | (Some (Inl e), calls') \<Rightarrow> (Some (Inl e), calls')
      | (Some (Inr v), calls') \<Rightarrow> k v calls')"

definition call_loopFieldMeters ::
  "number \<Rightarrow> number \<Rightarrow> number \<Rightarrow> number \<Rightarrow> number \<Rightarrow> number \<Rightarrow> vec logged"
where
  "call_loopFieldMeters x y z R I N calls =
     (loopFieldMeters x y z R I N, calls @ [(x, y, z, R, I, N)])"

definition magAt_logged ::
  "number \<Rightarrow> number \<Rightarrow> number \<Rightarrow> number \<Rightarrow> number \<Rightarrow> number \<Rightarrow>
   number \<Rightarrow> number \<Rightarrow> number \<Rightarrow> number logged"
where
  "magAt_logged x y z R I N dx dy dz =
     and_then_logged (call_loopFieldMeters (x + dx) (y + dy) (z + dz) R I N)
       (\<lambda>(bx, by, bz). returns_logged (Math_hypot3 bx by bz))"

text \<open>
  \<open>coilFieldWithGrad\<close> once more, line by line, with every call of \<open>loopFieldMeters\<close>
  made through \<open>call_loopFieldMeters\<close>.
\<close>

definition coilFieldWithGrad_logged ::
  "number \<Rightarrow> number \<Rightarrow> number \<Rightarrow> number \<Rightarrow> number \<Rightarrow> number \<Rightarrow> field_with_grad logged"
where
  "coilFieldWithGrad_logged x_cm y_cm z_cm R_cm I N =
     (let x = x_cm * Fin (1 / 10 ^ 2);
          y = y_cm * Fin (1 / 10 ^ 2);
          z = z_cm * Fin (1 / 10 ^ 2);
          R = R_cm * Fin (1 / 10 ^ 2)
      in and_then_logged (call_loopFieldMeters x y z R I N) (\<lambda>baseB.
           let baseMag = (case baseB of (b0, b1, b2) \<Rightarrow> Math_hypot3 b0 b1 b2);
               h = Math_max (Fin (1 / 10 ^ 5)) (or_zero (R * Fin (1 / 10 ^ 4)))
           in and_then_logged (magAt_logged x y z R I N h (Fin 0) (Fin 0)) (\<lambda>mxp.
              and_then_logged (magAt_logged x y z R I N (- h) (Fin 0) (Fin 0)) (\<lambda>mxm.
              let gradX = (mxp - mxm) / (Fin 2 * h)
              in and_then_logged (magAt_logged x y z R I N (Fin 0) h (Fin 0)) (\<lambda>myp.
                 and_then_logged (magAt_logged x y z R I N (Fin 0) (- h) (Fin 0)) (\<lambda>mym.
                 let gradY = (myp - mym) / (Fin 2 * h)
                 in and_then_logged (magAt_logged x y z R I N (Fin 0) (Fin 0) h) (\<lambda>mzp.
                    and_then_logged (magAt_logged x y z R I N (Fin 0) (Fin 0) (- h)) (\<lambda>mzm.
                    let gradZ = (mzp - mzm) / (Fin 2 * h)
                    in returns_logged \<lparr>B = baseB, Bmag = baseMag, grad = (gradX, gradY, gradZ)\<rparr>))))))))"

text \<open>Forgetting the log of a logged computation, whatever the log it started from.\<close>

definition erases_to :: "'a logged \<Rightarrow> 'a result \<Rightarrow> bool" where
  "erases_to m r = (\<forall>calls. fst (m calls) = r)"

section \<open>The Helmholtz pair\<close>

text \<open>
  \<open>loopField\<close> is local to \<open>helmholtzField\<close> and closes over the current \<open>I\<close> and the
  turn count \<open>N\<close>: they are its first two arguments here. It passes \<open>kSq\<close> to
  \<open>ellipticKE\<close> as computed.
\<close>

definition loopField ::
  "number \<Rightarrow> number \<Rightarrow> number \<Rightarrow> number \<Rightarrow> number \<Rightarrow> number \<Rightarrow> number \<Rightarrow> vec result"
where
  "loopField I N xp yp zp a x0 =
     (let rho = Math_hypot2 yp zp;
          zax = xp - x0
      in if rho = Fin 0 then
           (let bx = (mu0 * I * N * a * a) / (Fin 2 * Math_pow_1_5 (a * a + zax * zax))
            in returns (bx, Fin 0, Fin 0))
         else
           (let denom2 = Math_pow_2 (a + rho) + zax * zax;
                kSq = (Fin 4 * a * rho) / denom2
            in and_then (ellipticKE kSq) (\<lambda>(K, E).
                 let denom = Math_sqrt denom2;
                     factor = (mu0 * I * N) / (Fin 2 * Fin pi * denom);
                     rho2 = rho * rho;
                     z2 = zax * zax;
                     aMinusRho2 = Math_pow_2 (a - rho);
                     bRho = factor * (zax / rho) *
                            (- K + ((a * a + rho2 + z2) / (aMinusRho2 + z2)) * E);
                     bX = factor * (K + ((a * a - rho2 - z2) / (aMinusRho2 + z2)) * E);
                     cosPhi = yp / rho;
                     sinPhi = zp / rho;
                     bY = bRho * cosPhi;
                     bZ = bRho * sinPhi
                 in returns (bX, bY, bZ))))"

text \<open>\<open>Array.prototype.map\<close> with a callback that may throw: the calls run in order.\<close>

fun map_result :: "('a \<Rightarrow> 'b result) \<Rightarrow> 'a list \<Rightarrow> 'b list result" where
  "map_result f [] = returns []"
| "map_result f (c # cs) =
     and_then (f c) (\<lambda>v. and_then (map_result f cs) (\<lambda>vs. returns (v # vs)))"

definition add_vec :: "vec \<Rightarrow> vec \<Rightarrow> vec" where
  "add_vec acc cur =
     (case acc of (acc0, acc1, acc2) \<Rightarrow>
        case cur of (cur0, cur1, cur2) \<Rightarrow> (acc0 + cur0, acc1 + cur1, acc2 + cur2))"

definition helmholtzField ::
  "number \<Rightarrow> number \<Rightarrow> number \<Rightarrow> number \<Rightarrow> number \<Rightarrow> number \<Rightarrow> number \<Rightarrow> vec result"
where
  "helmholtzField x_cm y_cm z_cm R_cm V Omega N =
     (let x = x_cm * Fin (1 / 10 ^ 2);
          y = y_cm * Fin (1 / 10 ^ 2);
          z = z_cm * Fin (1 / 10 ^ 2);
          R = R_cm * Fin (1 / 10 ^ 2);
          I = V / Omega;
          centers = [(- R) / Fin 2, R / Fin 2]
      in and_then (map_result (\<lambda>c. loopField I N x y z R c) centers)
           (\<lambda>bs. returns (foldl add_vec (Fin 0, Fin 0, Fin 0) bs)))"


section \<open>The click handlers\<close>

text \<open>
  Each page has one handler, registered by \<open>main\<close>. It reads the seven form fields with
  \<open>parseFloat\<close> and \<open>parseInt\<close>; the arguments here are the parsed numbers. The page is
  the text of the error element and of the output element; the handler writes one of
  the fixed messages, or the message of a caught error, or the report of the computed
  field. The formatting of the report by \<open>toSci\<close> is not modelled: a report holds the
  numbers shown. The field computation is an argument of \<open>sc_on_click_with\<close> and
  \<open>hh_on_click_with\<close>, and the handlers of the two pages are their instances.
\<close>

datatype message =
  Fill_in_all_inputs | R_must_be_positive | Resistance_must_be_positive
  | Turns_must_be_positive | Message_of error

record 'o page =
  error_text :: "message option"
  output_text :: "'o option"

definition showError :: "message option \<Rightarrow> 'o page \<Rightarrow> 'o page" where
  "showError msg p = p\<lparr>error_text := msg\<rparr>"

datatype sc_report = Sc_report vec number vec number

definition sc_on_click_with ::
  "(number \<Rightarrow> number \<Rightarrow> number \<Rightarrow> number \<Rightarrow> number \<Rightarrow> number \<Rightarrow> field_with_grad result) \<Rightarrow>
   number \<Rightarrow> number \<Rightarrow> number \<Rightarrow> number \<Rightarrow> number \<Rightarrow> number \<Rightarrow> number \<Rightarrow>
   sc_report page \<Rightarrow> sc_report page option"
where
  "sc_on_click_with field x y z R I Omega N p0 =
     (let p = showError None p0
      in if list_ex Number_isNaN [x, y, z, R, I, Omega, N] then
           Some (showError (Some Fill_in_all_inputs) p)
         else if R \<le> Fin 0 then Some (showError (Some R_must_be_positive) p)
         else if Omega \<le> Fin 0 then Some (showError (Some Resistance_must_be_positive) p)
         else if N \<le> Fin 0 then Some (showError (Some Turns_must_be_positive) p)
         else
           (case field x y z R I N of
              None \<Rightarrow> None
            | Some (Inl err) \<Rightarrow> Some (showError (Some (Message_of err)) p)
            | Some (Inr r) \<Rightarrow>
                (let voltage = I * Omega
                 in Some (p\<lparr>output_text := Some (Sc_report (B r) (Bmag r) (grad r) voltage)\<rparr>))))"

definition sc_on_click ::
  "number \<Rightarrow> number \<Rightarrow> number \<Rightarrow> number \<Rightarrow> number \<Rightarrow> number \<Rightarrow> number \<Rightarrow>
   sc_report page \<Rightarrow> sc_report page option"
where
  "sc_on_click = sc_on_click_with coilFieldWithGrad"

datatype hh_report = Hh_report vec number

definition hh_on_click_with ::
  "(number \<Rightarrow> number \<Rightarrow> number \<Rightarrow> number \<Rightarrow> number \<Rightarrow> number \<Rightarrow> number \<Rightarrow> vec result) \<Rightarrow>
   number \<Rightarrow> number \<Rightarrow> number \<Rightarrow> number \<Rightarrow> number \<Rightarrow> number \<Rightarrow> number \<Rightarrow>
   hh_report page \<Rightarrow> hh_report page option"
where
  "hh_on_click_with field x y z R V Omega N p0 =
     (let p = showError None p0
      in if list_ex Number_isNaN [x, y, z, R, V, Omega, N] then
           Some (showError (Some Fill_in_all_inputs) p)
         else if R \<le> Fin 0 then Some (showError (Some R_must_be_positive) p)
         else if Omega \<le> Fin 0 then Some (showError (Some Resistance_must_be_positive) p)
         else if N \<le> Fin 0 then Some (showError (Some Turns_must_be_positive) p)
         else
           (case field x y z R V Omega N of
              None \<Rightarrow> None
            | Some (Inl err) \<Rightarrow> Some (showError (Some (Message_of err)) p)
            | Some (Inr (bx, by, bz)) \<Rightarrow>
                (let bmag = Math_hypot3 bx by bz
                 in Some (p\<lparr>output_text := Some (Hh_report (bx, by, bz) bmag)\<rparr>))))"

definition hh_on_click ::
  "number \<Rightarrow> number \<Rightarrow> number \<Rightarrow> number \<Rightarrow> number \<Rightarrow> number \<Rightarrow> number \<Rightarrow>
   hh_report page \<Rightarrow> hh_report page option"
where
  "hh_on_click = hh_on_click_with helmholtzField"

section \<open>Notions used in the statements\<close>

definition map_res :: "('a \<Rightarrow> 'b) \<Rightarrow> 'a result \<Rightarrow> 'b result" where
  "map_res f r = and_then r (\<lambda>v. returns (f v))"

definition scale_vec :: "number \<Rightarrow> vec \<Rightarrow> vec" where
  "scale_vec k v = (case v of (v0, v1, v2) \<Rightarrow> (k * v0, k * v1, k * v2))"

definition magnitude :: "vec \<Rightarrow> number" where
  "magnitude v = (case v of (v0, v1, v2) \<Rightarrow> Math_hypot3 v0 v1 v2)"

definition mirror_yz :: "vec \<Rightarrow> vec" where
  "mirror_yz v = (case v of (v0, v1, v2) \<Rightarrow> (v0, - v1, - v2))"

text \<open>
  The inputs that the handlers refuse: a field that parsed to \<open>NaN\<close>, or a radius, a
  resistance or a turn count that is not positive.
\<close>

definition invalid_input :: "number list \<Rightarrow> number \<Rightarrow> number \<Rightarrow> number \<Rightarrow> bool" where
  "invalid_input others R Omega N =
     (list_ex Number_isNaN others \<or> Number_isNaN R \<or> Number_isNaN Omega \<or> Number_isNaN N
      \<or> R \<le> Fin 0 \<or> Omega \<le> Fin 0 \<or> N \<le> Fin 0)"

text \<open>The step of the finite differences as the specification gives it, for a radius in metres.\<close>

definition step_size :: "real \<Rightarrow> real" where
  "step_size R = max (1 / 10 ^ 5) (R * (1 / 10 ^ 4))"

text \<open>
  The reference for the complete elliptic integral of the second kind is its power
  series \<open>E(m) = pi/2 (1 - \<Sum>n\<ge>1. ((2n-1)!!/(2n)!!)\<^sup>2 m\<^sup>n / (2n-1))\<close>, where
  \<open>(2n-1)!!/(2n)!!\<close> is the central binomial coefficient over \<open>4\<^sup>n\<close>. The term of index
  \<open>n\<close> below is the one for \<open>n + 1\<close>.
\<close>

definition central_ratio :: "nat \<Rightarrow> real" where
  "central_ratio n = real ((2 * n) choose n) / 4 ^ n"

definition E_series_term :: "real \<Rightarrow> nat \<Rightarrow> real" where
  "E_series_term m n = (central_ratio (Suc n))\<^sup>2 / real (2 * n + 1) * m ^ Suc n"

definition E_reference :: "real \<Rightarrow> real" where
  "E_reference m = pi / 2 * (1 - (\<Sum>n. E_series_term m n))"

text \<open>
  For the loop under rounding: the factors by which two roundings in a row can shrink
  or stretch a value, one round of the loop on reals, the loop returning whatever the
  sum and the weight are, and the bound on the relative gap with \<open>n\<close> rounds to go.
\<close>

definition round_lo :: real where
  "round_lo = (1 - unit_roundoff) * (1 - unit_roundoff)"

definition round_hi :: real where
  "round_hi = (1 + unit_roundoff) * (1 + unit_roundoff)"

definition an_r :: "(real \<Rightarrow> real) \<Rightarrow> real \<Rightarrow> real \<Rightarrow> real" where
  "an_r rnd a b = rnd (rnd (a + b) / 2)"

definition bn_r :: "(real \<Rightarrow> real) \<Rightarrow> real \<Rightarrow> real \<Rightarrow> real" where
  "bn_r rnd a b = rnd (sqrt (rnd (a * b)))"

definition cn_r :: "(real \<Rightarrow> real) \<Rightarrow> real \<Rightarrow> real \<Rightarrow> real" where
  "cn_r rnd a b = rnd (rnd (a - b) / 2)"

definition halts :: "(real \<Rightarrow> real) \<Rightarrow> real \<Rightarrow> real \<Rightarrow> real \<Rightarrow> bool" where
  "halts rnd a b c \<longleftrightarrow>
     (\<forall>s p. \<exists>a' b' c' s' p'.
        agm_loop_rounded rnd (Fin a) (Fin b) (Fin c) (Fin s) (Fin p) =
          Some (Fin a', Fin b', Fin c', Fin s', Fin p') \<and> 0 < a')"

definition gamma :: "nat \<Rightarrow> real" where
  "gamma n = 12 * unit_roundoff + 5 / 10 ^ 15 * (3 / 2) ^ n"

section \<open>Arithmetic of numbers\<close>

lemma minus_Fin [simp]: "Fin a - Fin b = Fin (a - b)"
  by (simp add: minus_number_def)

lemma zero_add_number [simp]: "Fin 0 + v = v"
  by (cases v) simp_all

lemma add_commute_number: "(a::number) + b = b + a"
  by (cases a; cases b) simp_all

lemma mult_commute_number: "(a::number) * b = b * a"
  by (cases a; cases b) simp_all

lemma mult_assoc_number: "((a::number) * b) * c = a * (b * c)"
  by (cases a; cases b; cases c) (simp_all add: zero_less_mult_iff mult_less_0_iff)

lemma neg_neg_number [simp]: "- (- (a::number)) = a"
  by (cases a) simp_all

lemma neg_add_number: "- ((a::number) + b) = - a + - b"
  by (cases a; cases b) simp_all

lemma neg_mult_left: "(- (a::number)) * b = - (a * b)"
  by (cases a; cases b) auto

lemma neg_mult_right: "(a::number) * (- b) = - (a * b)"
  by (cases a; cases b) auto

lemma neg_div_left: "(- (a::number)) / b = - (a / b)"
  by (cases a; cases b) auto

lemma neg_sq: "(- (a::number)) * (- a) = a * a"
  by (cases a) simp_all

lemma neg_sub: "- (a::number) - (- b) = - (a - b)"
  by (simp add: minus_number_def neg_add_number)

lemma scale_add: "Fin k * (a + b) = Fin k * a + Fin k * b"
  by (cases a; cases b) (auto simp: distrib_left)

lemma scale_div: "(Fin k * a) / b = Fin k * (a / b)"
  by (cases a; cases b) (auto simp: zero_less_mult_iff mult_less_0_iff not_less)

lemma scale_neg: "Fin k * (- a) = - (Fin k * a)"
  by (cases a) auto

lemma scale_mult_left: "Fin k * a * b = Fin k * (a * b)"
  by (rule mult_assoc_number)

lemma scale_mult_mid: "a * (Fin k * b) = Fin k * (a * b)"
  by (metis mult_assoc_number mult_commute_number)

lemma hypot3_scale:
  "Math_hypot3 (Fin k * a) (Fin k * b) (Fin k * c) = Fin \<bar>k\<bar> * Math_hypot3 a b c"
proof -
  have r: "sqrt (k * x * (k * x) + k * y * (k * y) + k * z * (k * z)) = \<bar>k\<bar> * sqrt (x * x + y * y + z * z)"
    for x y z :: real
  proof -
    have "k * x * (k * x) + k * y * (k * y) + k * z * (k * z) = k\<^sup>2 * (x * x + y * y + z * z)"
      by (simp add: algebra_simps power2_eq_square)
    then show ?thesis
      by (simp only: real_sqrt_mult real_sqrt_abs)
  qed
  show ?thesis
    by (cases a; cases b; cases c) (auto simp: is_inf_def r)
qed

lemma hypot2_zero_iff: "Math_hypot2 (Fin y) (Fin z) = Fin 0 \<longleftrightarrow> y = 0 \<and> z = 0"
proof -
  have "y * y + z * z = 0 \<longleftrightarrow> y = 0 \<and> z = 0"
    by (metis add_nonneg_eq_0_iff mult_eq_0_iff zero_le_square)
  then show ?thesis by simp
qed

lemma hypot2_axis [simp]: "Math_hypot2 (Fin a) (Fin 0) = Fin \<bar>a\<bar>"
  by simp

section \<open>Termination of the arithmetic-geometric mean\<close>

text \<open>
  One round of the loop keeps \<open>b \<le> a\<close>, does not let \<open>a\<close> fall below the first \<open>b\<close>, and
  at least halves the gap \<open>a - b\<close>; the test compares half the previous gap with
  \<open>tol * a\<close>, which stays above \<open>tol\<close> times the first \<open>b\<close>.
\<close>

lemma agm_gap_halves:
  fixes a b :: real
  assumes "0 \<le> b" "b \<le> a"
  shows "b \<le> sqrt (a * b)" "sqrt (a * b) \<le> (a + b) / 2" "(a + b) / 2 \<le> a"
        "(a + b) / 2 - sqrt (a * b) \<le> (a - b) / 2"
proof -
  have "b * b \<le> a * b"
    using assms by (simp add: mult_right_mono)
  then have "sqrt (b * b) \<le> sqrt (a * b)"
    by (rule real_sqrt_le_mono)
  then show 1: "b \<le> sqrt (a * b)"
    using assms by simp
  define m where "m = (a + b) / 2"
  have m0: "0 \<le> m"
    using assms by (simp add: m_def)
  have "0 \<le> (a - b) * (a - b)" by simp
  then have "a * b \<le> m * m"
    by (simp add: m_def algebra_simps)
  then have "sqrt (a * b) \<le> sqrt (m * m)"
    by (rule real_sqrt_le_mono)
  also have "sqrt (m * m) = m"
    using m0 by (simp only: real_sqrt_abs2 abs_of_nonneg)
  finally show "sqrt (a * b) \<le> (a + b) / 2"
    by (simp only: m_def)
  show "(a + b) / 2 \<le> a"
    using assms by simp
  have "(a + b) / 2 - r \<le> (a - b) / 2" if "b \<le> r" for r
    using that by (simp add: field_simps)
  then show "(a + b) / 2 - sqrt (a * b) \<le> (a - b) / 2"
    using 1 by blast
qed

lemma agm_loop_returns:
  fixes a b c s p b0 :: real
  assumes "0 < b0" "b0 \<le> b" "b \<le> a" "a - b \<le> c" "0 \<le> p"
      and "c \<le> b0 / 10 ^ 14 * 2 ^ n"
  shows "\<exists>a' b' c' s' p'.
           agm_loop (Fin a) (Fin b) (Fin c) (Fin s) (Fin p) = Some (Fin a', Fin b', Fin c', Fin s', Fin p')
           \<and> b0 \<le> a' \<and> a' \<le> a \<and> s \<le> s' \<and> s' \<le> s + p * c * c / 2"
  using assms
proof (induction n arbitrary: a b c s p)
  case 0
  have c0: "0 \<le> c" using 0 by linarith
  have "c \<le> a / 10 ^ 14"
  proof -
    have "b0 / 10 ^ 14 \<le> a / 10 ^ 14"
      using 0 by (simp add: divide_right_mono)
    then show ?thesis using 0 by simp
  qed
  then have "\<not> (tol * Fin a < \<bar>Fin c\<bar>)"
    using c0 by (simp add: tol_def)
  then have "agm_loop (Fin a) (Fin b) (Fin c) (Fin s) (Fin p) = Some (Fin a, Fin b, Fin c, Fin s, Fin p)"
    by (subst agm_loop.simps) simp
  moreover have "0 \<le> p * c * c / 2"
    using 0 c0 by simp
  ultimately show ?case
    using 0 by auto
next
  case (Suc n)
  have c0: "0 \<le> c" using Suc.prems by linarith
  have b_pos: "0 \<le> b" using Suc.prems by linarith
  show ?case
  proof (cases "tol * Fin a < \<bar>Fin c\<bar>")
    case False
    then have "agm_loop (Fin a) (Fin b) (Fin c) (Fin s) (Fin p) = Some (Fin a, Fin b, Fin c, Fin s, Fin p)"
      by (subst agm_loop.simps) simp
    moreover have "0 \<le> p * c * c / 2"
      using Suc.prems c0 by simp
    ultimately show ?thesis
      using Suc.prems by auto
  next
    case True
    define an where "an = (a + b) / 2"
    define bn where "bn = sqrt (a * b)"
    define cn where "cn = (a - b) / 2"
    define sn where "sn = s + p * cn * cn"
    define pn where "pn = p * 2"
    note g = agm_gap_halves [OF b_pos Suc.prems(3), folded an_def bn_def cn_def]
    have ab: "\<not> a * b < 0"
      using b_pos Suc.prems by (simp add: not_less)
    have step: "agm_loop (Fin a) (Fin b) (Fin c) (Fin s) (Fin p) =
                agm_loop (Fin an) (Fin bn) (Fin cn) (Fin sn) (Fin pn)"
      using True ab
      by (subst agm_loop.simps) (simp add: Let_def an_def bn_def cn_def sn_def pn_def)
    have cn_le: "cn \<le> c / 2"
      using Suc.prems by (simp add: cn_def)
    have cn0: "0 \<le> cn"
      using Suc.prems by (simp add: cn_def)
    have "c / 2 \<le> b0 / 10 ^ 14 * 2 ^ n"
      using Suc.prems(6) by simp
    then have bound: "cn \<le> b0 / 10 ^ 14 * 2 ^ n"
      using cn_le by linarith
    have "\<exists>a' b' c' s' p'.
           agm_loop (Fin an) (Fin bn) (Fin cn) (Fin sn) (Fin pn) =
             Some (Fin a', Fin b', Fin c', Fin s', Fin p')
           \<and> b0 \<le> a' \<and> a' \<le> an \<and> sn \<le> s' \<and> s' \<le> sn + pn * cn * cn / 2"
    proof (rule Suc.IH)
      show "0 < b0" by fact
      show "b0 \<le> bn" using g(1) Suc.prems(2) by linarith
      show "bn \<le> an" by (rule g(2))
      show "an - bn \<le> cn" by (rule g(4))
      show "0 \<le> pn" using Suc.prems(5) by (simp add: pn_def)
      show "cn \<le> b0 / 10 ^ 14 * 2 ^ n" by (rule bound)
    qed
    then obtain a' b' c' s' p' where
      res: "agm_loop (Fin an) (Fin bn) (Fin cn) (Fin sn) (Fin pn) =
              Some (Fin a', Fin b', Fin c', Fin s', Fin p')"
      and a': "b0 \<le> a'" "a' \<le> an" and s': "sn \<le> s'" "s' \<le> sn + pn * cn * cn / 2"
      by blast
    have sq: "cn * cn \<le> (c / 2) * (c / 2)"
      using cn0 cn_le by (intro mult_mono) linarith+
    have "p * (cn * cn) \<le> p * ((c / 2) * (c / 2))"
      using sq Suc.prems(5) by (rule mult_left_mono)
    moreover have "sn + pn * cn * cn / 2 = s + 2 * (p * (cn * cn))"
      by (simp add: sn_def pn_def)
    moreover have "s + p * c * c / 2 = s + 2 * (p * ((c / 2) * (c / 2)))"
      by simp
    ultimately have up: "sn + pn * cn * cn / 2 \<le> s + p * c * c / 2"
      by linarith
    have "0 \<le> p * (cn * cn)"
      using Suc.prems(5) by simp
    then have lo: "s \<le> sn"
      by (simp add: sn_def mult.assoc)
    have "a' \<le> a" "s \<le> s'" "s' \<le> s + p * c * c / 2"
      using a' s' up lo g(3) by linarith+
    then show ?thesis
      using step res a'(1) by auto
  qed
qed


lemma ellipticKE_returns:
  fixes m :: real
  assumes "0 \<le> m" "m < 1"
  shows "\<exists>a' s'. ellipticKE (Fin m) = returns (Fin (pi / (2 * a')), Fin (pi / (2 * a') * (1 - s')))
           \<and> sqrt (1 - m) \<le> a' \<and> a' \<le> 1 \<and> 0 \<le> s'
           \<and> s' \<le> (1 - sqrt (1 - m)) * (1 - sqrt (1 - m)) / 2"
proof -
  define b0 where "b0 = sqrt (1 - m)"
  have b0: "0 < b0" "b0 \<le> 1"
    using assms by (simp_all add: b0_def)
  have "0 < b0 / 10 ^ 14"
    using b0 by simp
  then have "\<exists>n. (1 - b0) / (b0 / 10 ^ 14) < 2 ^ n"
    by (intro real_arch_pow) simp
  then obtain n where "(1 - b0) / (b0 / 10 ^ 14) < 2 ^ n" ..
  then have n: "1 - b0 \<le> b0 / 10 ^ 14 * 2 ^ n"
    using \<open>0 < b0 / 10 ^ 14\<close> by (simp add: pos_divide_less_eq mult.commute less_imp_le)
  have "\<exists>a' b' c' s' p'.
           agm_loop (Fin 1) (Fin b0) (Fin (1 - b0)) (Fin 0) (Fin 1) =
             Some (Fin a', Fin b', Fin c', Fin s', Fin p')
           \<and> b0 \<le> a' \<and> a' \<le> 1 \<and> 0 \<le> s' \<and> s' \<le> 0 + 1 * (1 - b0) * (1 - b0) / 2"
    using b0 n by (intro agm_loop_returns) simp_all
  then obtain a' b' c' s' p' where
    loop: "agm_loop (Fin 1) (Fin b0) (Fin (1 - b0)) (Fin 0) (Fin 1) =
             Some (Fin a', Fin b', Fin c', Fin s', Fin p')"
    and a': "b0 \<le> a'" "a' \<le> 1" and s': "0 \<le> s'" "s' \<le> (1 - b0) * (1 - b0) / 2"
    by auto
  have "a' \<noteq> 0"
    using a' b0 by linarith
  then have "ellipticKE (Fin m) = returns (Fin (pi / (2 * a')), Fin (pi / (2 * a') * (1 - s')))"
    using assms loop by (simp add: ellipticKE_def Let_def b0_def not_less)
  then show ?thesis
    using a' s' unfolding b0_def by blast
qed

lemma ellipticKE_NaN: "ellipticKE NaN = returns (Fin (pi / 2), Fin (pi / 2))"
proof -
  have "agm_loop (Fin 1) NaN NaN (Fin 0) (Fin 1) = Some (Fin 1, NaN, NaN, Fin 0, Fin 1)"
    by (subst agm_loop.simps) (simp add: tol_def)
  then show ?thesis
    by (simp add: ellipticKE_def Let_def minus_number_def)
qed

lemma ellipticKE_total: "\<exists>r. ellipticKE m = Some r"
proof (cases m)
  case (Fin x)
  show ?thesis
  proof (cases "0 \<le> x \<and> x < 1")
    case True
    then show ?thesis
      using ellipticKE_returns [of x] Fin by (auto simp: returns_def)
  next
    case False
    then show ?thesis
      using Fin by (auto simp: ellipticKE_def throws_def)
  qed
next
  case NaN
  then show ?thesis
    using ellipticKE_NaN by (auto simp: returns_def)
qed (simp_all add: ellipticKE_def throws_def)

lemma Math_max_Fin: "Math_max (Fin a) (Fin b) = Fin (max a b)"
  by (simp add: max_def)

lemma Math_min_Fin: "Math_min (Fin a) (Fin b) = Fin (min a b)"
  by (simp add: min_def)

lemma clamped_parameter:
  "Math_min (Fin 1 - Fin (1 / 10 ^ 14)) (Math_max (Fin 0) v) = NaN
   \<or> (\<exists>k. Math_min (Fin 1 - Fin (1 / 10 ^ 14)) (Math_max (Fin 0) v) = Fin k \<and> 0 \<le> k \<and> k < 1)"
proof (cases v)
  case (Fin x)
  have "Math_min (Fin 1 - Fin (1 / 10 ^ 14)) (Math_max (Fin 0) v) =
        Fin (min (1 - 1 / 10 ^ 14) (max 0 x))"
    unfolding Fin minus_Fin Math_max_Fin Math_min_Fin ..
  moreover have "0 \<le> min (1 - 1 / 10 ^ 14) (max 0 x)" "min (1 - 1 / 10 ^ 14) (max 0 x) < 1"
    by simp_all
  ultimately show ?thesis by blast
next
  case PInf
  have "Math_min (Fin 1 - Fin (1 / 10 ^ 14)) (Math_max (Fin 0) v) = Fin (1 - 1 / 10 ^ 14)"
    unfolding PInf minus_Fin by simp
  moreover have "(0::real) \<le> 1 - 1 / 10 ^ 14" "(1::real) - 1 / 10 ^ 14 < 1"
    by simp_all
  ultimately show ?thesis by blast
next
  case NInf
  have "Math_min (Fin 1 - Fin (1 / 10 ^ 14)) (Math_max (Fin 0) v) = Fin 0"
    unfolding NInf minus_Fin by simp
  then show ?thesis by simp
next
  case NaN
  then show ?thesis by simp
qed

lemma ellipticKE_clamped:
  "\<exists>K E. ellipticKE (Math_min (Fin 1 - Fin (1 / 10 ^ 14)) (Math_max (Fin 0) v)) = returns (K, E)"
  using clamped_parameter [of v] ellipticKE_NaN ellipticKE_returns by (metis)

lemma loopFieldMeters_returns: "\<exists>v. loopFieldMeters x y z R I N = returns v"
proof -
  obtain K E where "ellipticKE (Math_min (Fin 1 - Fin (1 / 10 ^ 14))
      (Math_max (Fin 0) ((Fin 4 * R * Math_hypot2 y z) / (Math_pow_2 (R + Math_hypot2 y z) + x * x)))) = returns (K, E)"
    using ellipticKE_clamped by blast
  then show ?thesis
    by (simp add: loopFieldMeters_def Let_def and_then_def returns_def)
qed

section \<open>Termination of the loop under rounding\<close>

text \<open>
  With rounding the gap \<open>a - b\<close> need not halve, and \<open>b\<close> may overtake \<open>a\<close>. The ratio
  of the smaller to the larger of the two still grows by a factor \<open>1.9\<close> per round while
  it is below \<open>1/4\<close>; from then on the gap relative to \<open>a + b\<close> shrinks by a factor
  \<open>3/5\<close> per round, up to an error of a few units of rounding, and falls below \<open>tol\<close>.
\<close>

lemma eps_small: "0 < unit_roundoff" "unit_roundoff \<le> 1 / 10 ^ 15"
  by (simp_all add: unit_roundoff_def)

lemma rounding_bounds:
  assumes "rounding rnd" "0 \<le> x"
  shows "x * (1 - unit_roundoff) \<le> rnd x" "rnd x \<le> x * (1 + unit_roundoff)"
proof -
  have "\<bar>rnd x - x\<bar> \<le> \<bar>x\<bar> * unit_roundoff"
    using assms(1) by (simp add: rounding_def)
  then have "\<bar>rnd x - x\<bar> \<le> x * unit_roundoff"
    using assms(2) by simp
  then show "x * (1 - unit_roundoff) \<le> rnd x" "rnd x \<le> x * (1 + unit_roundoff)"
    by (simp_all add: algebra_simps abs_le_iff)
qed

lemma rounding_pos:
  assumes "rounding rnd" "0 < x"
  shows "0 < rnd x"
proof -
  have "0 < x * (1 - unit_roundoff)"
    using assms(2) eps_small by (intro mult_pos_pos) simp_all
  then show ?thesis
    using rounding_bounds(1) [OF assms(1), of x] assms(2) by simp
qed

lemma rounding_abs:
  assumes "rounding rnd"
  shows "\<bar>rnd x\<bar> \<le> \<bar>x\<bar> * (1 + unit_roundoff)"
proof -
  have "\<bar>rnd x - x\<bar> \<le> \<bar>x\<bar> * unit_roundoff"
    using assms by (simp add: rounding_def)
  then show ?thesis
    by (simp add: algebra_simps)
qed

lemma rounding_twice:
  assumes "rounding rnd" "0 \<le> x" "x * (1 - unit_roundoff) \<le> y" "y \<le> x * (1 + unit_roundoff)"
  shows "x * round_lo \<le> rnd y" "rnd y \<le> x * round_hi"
proof -
  have e: "0 \<le> 1 - unit_roundoff" "0 \<le> 1 + unit_roundoff"
    using eps_small by simp_all
  have y0: "0 \<le> y"
    using assms(2,3) e(1) by (meson mult_nonneg_nonneg order_trans)
  have "x * (1 - unit_roundoff) * (1 - unit_roundoff) \<le> y * (1 - unit_roundoff)"
    using assms(3) e(1) by (rule mult_right_mono)
  also have "\<dots> \<le> rnd y"
    by (rule rounding_bounds(1) [OF assms(1) y0])
  finally show "x * round_lo \<le> rnd y"
    by (simp add: round_lo_def mult.assoc)
  have "rnd y \<le> y * (1 + unit_roundoff)"
    by (rule rounding_bounds(2) [OF assms(1) y0])
  also have "\<dots> \<le> x * (1 + unit_roundoff) * (1 + unit_roundoff)"
    using assms(4) e(2) by (rule mult_right_mono)
  finally show "rnd y \<le> x * round_hi"
    by (simp add: round_hi_def mult.assoc)
qed

lemma an_bounds:
  assumes "rounding rnd" "0 < a" "0 < b"
  shows "(a + b) / 2 * round_lo \<le> an_r rnd a b" "an_r rnd a b \<le> (a + b) / 2 * round_hi"
proof -
  have s: "0 \<le> a + b" using assms by simp
  have l: "(a + b) / 2 * (1 - unit_roundoff) \<le> rnd (a + b) / 2"
    and u: "rnd (a + b) / 2 \<le> (a + b) / 2 * (1 + unit_roundoff)"
    using rounding_bounds [OF assms(1) s] by simp_all
  show "(a + b) / 2 * round_lo \<le> an_r rnd a b"
    unfolding an_r_def using s by (intro rounding_twice(1) [OF assms(1) _ l u]) simp
  show "an_r rnd a b \<le> (a + b) / 2 * round_hi"
    unfolding an_r_def using s by (intro rounding_twice(2) [OF assms(1) _ l u]) simp
qed

lemma sqrt_factor:
  "1 - unit_roundoff \<le> sqrt (1 - unit_roundoff)" "sqrt (1 + unit_roundoff) \<le> 1 + unit_roundoff"
proof -
  have e: "0 \<le> 1 - unit_roundoff" "1 - unit_roundoff \<le> 1" "1 \<le> 1 + unit_roundoff"
    using eps_small by simp_all
  have "(1 - unit_roundoff) * (1 - unit_roundoff) \<le> 1 * (1 - unit_roundoff)"
    using e by (intro mult_right_mono) simp_all
  then have "sqrt ((1 - unit_roundoff) * (1 - unit_roundoff)) \<le> sqrt (1 - unit_roundoff)"
    by (intro real_sqrt_le_mono) simp
  then show "1 - unit_roundoff \<le> sqrt (1 - unit_roundoff)"
    using e(1) by (simp only: real_sqrt_abs2 abs_of_nonneg)
  have "1 * (1 + unit_roundoff) \<le> (1 + unit_roundoff) * (1 + unit_roundoff)"
    using e by (intro mult_right_mono) simp_all
  then have "sqrt (1 + unit_roundoff) \<le> sqrt ((1 + unit_roundoff) * (1 + unit_roundoff))"
    by (intro real_sqrt_le_mono) simp
  then show "sqrt (1 + unit_roundoff) \<le> 1 + unit_roundoff"
    using e by (simp only: real_sqrt_abs2)
qed

lemma bn_bounds:
  assumes "rounding rnd" "0 < a" "0 < b"
  shows "sqrt (a * b) * round_lo \<le> bn_r rnd a b" "bn_r rnd a b \<le> sqrt (a * b) * round_hi"
proof -
  have p: "0 \<le> a * b" using assms by simp
  note r = rounding_bounds [OF assms(1) p]
  have "sqrt (a * b) * (1 - unit_roundoff) \<le> sqrt (a * b) * sqrt (1 - unit_roundoff)"
    using sqrt_factor(1) p by (intro mult_left_mono) simp_all
  also have "\<dots> = sqrt (a * b * (1 - unit_roundoff))"
    by (simp add: real_sqrt_mult)
  also have "\<dots> \<le> sqrt (rnd (a * b))"
    using r(1) by (rule real_sqrt_le_mono)
  finally have l: "sqrt (a * b) * (1 - unit_roundoff) \<le> sqrt (rnd (a * b))" .
  have "sqrt (rnd (a * b)) \<le> sqrt (a * b * (1 + unit_roundoff))"
    using r(2) by (rule real_sqrt_le_mono)
  also have "\<dots> = sqrt (a * b) * sqrt (1 + unit_roundoff)"
    by (simp add: real_sqrt_mult)
  also have "\<dots> \<le> sqrt (a * b) * (1 + unit_roundoff)"
    using sqrt_factor(2) p by (intro mult_left_mono) simp_all
  finally have u: "sqrt (rnd (a * b)) \<le> sqrt (a * b) * (1 + unit_roundoff)" .
  show "sqrt (a * b) * round_lo \<le> bn_r rnd a b"
    unfolding bn_r_def using p by (intro rounding_twice(1) [OF assms(1) _ l u]) simp
  show "bn_r rnd a b \<le> sqrt (a * b) * round_hi"
    unfolding bn_r_def using p by (intro rounding_twice(2) [OF assms(1) _ l u]) simp
qed

lemma cn_bound:
  assumes "rounding rnd"
  shows "\<bar>cn_r rnd a b\<bar> \<le> \<bar>a - b\<bar> / 2 * round_hi"
proof -
  have e: "0 \<le> 1 + unit_roundoff"
    using eps_small by simp
  have "\<bar>cn_r rnd a b\<bar> \<le> \<bar>rnd (a - b) / 2\<bar> * (1 + unit_roundoff)"
    unfolding cn_r_def by (rule rounding_abs [OF assms])
  also have "\<bar>rnd (a - b) / 2\<bar> = \<bar>rnd (a - b)\<bar> / 2"
    by simp
  also have "\<bar>rnd (a - b)\<bar> / 2 * (1 + unit_roundoff) \<le> (\<bar>a - b\<bar> * (1 + unit_roundoff)) / 2 * (1 + unit_roundoff)"
    using rounding_abs [OF assms, of "a - b"] e by (intro mult_right_mono divide_right_mono) simp_all
  finally show ?thesis
    by (simp add: round_hi_def mult.assoc)
qed

lemma lo_hi_facts:
  "99 / 100 \<le> round_lo" "round_lo \<le> 1" "1 \<le> round_hi" "round_hi \<le> 2 * round_lo" "19 / 10 * round_hi \<le> 2 * round_lo"
  "round_hi - round_lo = 4 * unit_roundoff" "0 < round_lo" "0 < round_hi"
  by (simp_all add: round_lo_def round_hi_def unit_roundoff_def)

lemma means:
  fixes a b :: real
  assumes "0 < a" "0 < b"
  shows "0 < sqrt (a * b)" "sqrt (a * b) \<le> (a + b) / 2"
    "((a + b) / 2 - sqrt (a * b)) * ((a + b) / 2) \<le> (a - b) * (a - b) / 4"
proof -
  define A where "A = (a + b) / 2"
  define G where "G = sqrt (a * b)"
  have A: "0 < A" using assms by (simp add: A_def)
  show G: "0 < sqrt (a * b)" using assms by simp
  have GG: "G * G = a * b"
    using assms by (simp add: G_def)
  have "0 \<le> (a - b) * (a - b)" by simp
  then have "a * b \<le> A * A"
    by (simp add: A_def algebra_simps)
  then have "sqrt (a * b) \<le> sqrt (A * A)"
    by (rule real_sqrt_le_mono)
  also have "sqrt (A * A) = A"
    using A by (simp only: real_sqrt_abs2)
  finally show GA: "sqrt (a * b) \<le> (a + b) / 2"
    by (simp only: A_def)
  have "(A - G) * (A + G) = A * A - G * G"
    by (simp add: algebra_simps)
  also have "\<dots> = (a - b) * (a - b) / 4"
    unfolding GG by (simp add: A_def algebra_simps)
  finally have eq: "(A - G) * (A + G) = (a - b) * (a - b) / 4" .
  have "0 \<le> A - G" "A \<le> A + G"
    using GA G by (simp_all add: A_def G_def)
  then have "(A - G) * A \<le> (A - G) * (A + G)"
    by (intro mult_left_mono)
  then show "((a + b) / 2 - sqrt (a * b)) * ((a + b) / 2) \<le> (a - b) * (a - b) / 4"
    unfolding eq by (simp only: A_def G_def)
qed

lemma gm_lower:
  fixes a b q w :: real
  assumes "0 < a" "0 < b" "0 \<le> w" "w * a \<le> b" "w * b \<le> a" "0 \<le> q" "q * q \<le> w"
  shows "q * ((a + b) / 2) \<le> sqrt (a * b)"
proof -
  define A where "A = (a + b) / 2"
  have A: "0 < A" using assms by (simp add: A_def)
  have wA: "w * (A * A) \<le> a * b"
  proof (cases "a \<le> b")
    case True
    then have "A \<le> b" by (simp add: A_def)
    then have "A * A \<le> b * b"
      using A by (intro mult_mono) simp_all
    then have "w * (A * A) \<le> w * (b * b)"
      using assms(3) by (rule mult_left_mono)
    also have "w * (b * b) = (w * b) * b" by simp
    also have "\<dots> \<le> a * b"
      using assms(5,2) by (intro mult_right_mono) simp_all
    finally show ?thesis .
  next
    case False
    then have "A \<le> a" by (simp add: A_def)
    then have "A * A \<le> a * a"
      using A by (intro mult_mono) simp_all
    then have "w * (A * A) \<le> w * (a * a)"
      using assms(3) by (rule mult_left_mono)
    also have "w * (a * a) = a * (w * a)" by simp
    also have "\<dots> \<le> a * b"
      using assms(4,1) by (intro mult_left_mono) simp_all
    finally show ?thesis .
  qed
  have "(q * A) * (q * A) = (q * q) * (A * A)" by simp
  also have "\<dots> \<le> w * (A * A)"
    using assms(7) by (intro mult_right_mono) simp_all
  also have "\<dots> \<le> a * b" by (rule wA)
  finally have "sqrt ((q * A) * (q * A)) \<le> sqrt (a * b)"
    by (rule real_sqrt_le_mono)
  moreover have "sqrt ((q * A) * (q * A)) = q * A"
    using assms(6) A by (simp only: real_sqrt_abs2) simp
  ultimately show ?thesis
    by (simp only: A_def)
qed

lemma ratio_step:
  assumes "rounding rnd" "0 < a" "0 < b" "0 \<le> q" "q * ((a + b) / 2) \<le> sqrt (a * b)"
  shows "0 < an_r rnd a b" "0 < bn_r rnd a b"
    "q * round_lo * an_r rnd a b \<le> round_hi * bn_r rnd a b"
    "round_lo * bn_r rnd a b \<le> round_hi * an_r rnd a b"
proof -
  define A where "A = (a + b) / 2"
  define G where "G = sqrt (a * b)"
  note an = an_bounds [OF assms(1,2,3), folded A_def]
  note bn = bn_bounds [OF assms(1,2,3), folded G_def]
  note m = means [OF assms(2,3), folded A_def G_def]
  note f = lo_hi_facts
  have A: "0 < A" using assms by (simp add: A_def)
  have "0 < A * round_lo" using A f(7) by (rule mult_pos_pos)
  then show an0: "0 < an_r rnd a b" using an(1) by linarith
  have "0 < G * round_lo" using m(1) f(7) by (rule mult_pos_pos)
  then show bn0: "0 < bn_r rnd a b" using bn(1) by linarith
  have "q * round_lo * an_r rnd a b \<le> q * round_lo * (A * round_hi)"
    using an(2) assms(4) f(7) by (intro mult_left_mono) simp_all
  also have "\<dots> = round_hi * ((q * A) * round_lo)" by simp
  also have "\<dots> \<le> round_hi * (G * round_lo)"
    using assms(5) f(7,8) unfolding A_def [symmetric] G_def [symmetric]
    by (intro mult_left_mono mult_right_mono) simp_all
  also have "\<dots> \<le> round_hi * bn_r rnd a b"
    using bn(1) f(8) by (intro mult_left_mono) simp_all
  finally show "q * round_lo * an_r rnd a b \<le> round_hi * bn_r rnd a b" .
  have "round_lo * bn_r rnd a b \<le> round_lo * (G * round_hi)"
    using bn(2) f(7) by (intro mult_left_mono) simp_all
  also have "\<dots> \<le> round_lo * (A * round_hi)"
    using m(2) f(7,8) by (intro mult_left_mono mult_right_mono) simp_all
  also have "\<dots> = round_hi * (A * round_lo)" by simp
  also have "\<dots> \<le> round_hi * an_r rnd a b"
    using an(1) f(8) by (intro mult_left_mono) simp_all
  finally show "round_lo * bn_r rnd a b \<le> round_hi * an_r rnd a b" .
qed

lemma c_step:
  assumes "rounding rnd" "0 < a" "0 < b" "\<bar>a - b\<bar> \<le> g * (a + b)" "0 \<le> g"
  shows "\<bar>cn_r rnd a b\<bar> * round_lo \<le> g * round_hi * an_r rnd a b"
proof -
  define A where "A = (a + b) / 2"
  note an = an_bounds [OF assms(1,2,3), folded A_def]
  note f = lo_hi_facts
  have "\<bar>a - b\<bar> / 2 \<le> g * A"
    using assms(4) by (simp add: A_def)
  then have "\<bar>a - b\<bar> / 2 * round_hi \<le> g * A * round_hi"
    using f(8) by (intro mult_right_mono) simp_all
  then have "\<bar>cn_r rnd a b\<bar> \<le> g * A * round_hi"
    using cn_bound [OF assms(1), of a b] by linarith
  then have "\<bar>cn_r rnd a b\<bar> * round_lo \<le> g * A * round_hi * round_lo"
    using f(7) by (intro mult_right_mono) simp_all
  also have "\<dots> = g * round_hi * (A * round_lo)" by simp
  also have "\<dots> \<le> g * round_hi * an_r rnd a b"
    using an(1) assms(5) f(8) by (intro mult_left_mono) simp_all
  finally show ?thesis .
qed

lemma gap_step:
  assumes "rounding rnd" "0 < a" "0 < b" "a \<le> 4 * b" "b \<le> 4 * a"
      and "\<bar>a - b\<bar> \<le> g * (a + b)" "0 \<le> g"
      and "3 / 5 * g + 4 * unit_roundoff \<le> g' * round_lo"
  shows "\<bar>an_r rnd a b - bn_r rnd a b\<bar> \<le> g' * (an_r rnd a b + bn_r rnd a b)"
proof -
  define A where "A = (a + b) / 2"
  define G where "G = sqrt (a * b)"
  note an = an_bounds [OF assms(1,2,3), folded A_def]
  note bn = bn_bounds [OF assms(1,2,3), folded G_def]
  note m = means [OF assms(2,3), folded A_def G_def]
  note f = lo_hi_facts
  have A: "0 < A" using assms by (simp add: A_def)
  have twoA: "2 * A = a + b"
    by (simp add: A_def)
  have "\<bar>a - b\<bar> \<le> 3 / 5 * (a + b)"
    using assms(4,5) by (intro abs_leI) simp_all
  then have d1: "\<bar>a - b\<bar> \<le> 3 / 5 * (2 * A)"
    by (simp only: twoA)
  have d2: "\<bar>a - b\<bar> \<le> g * (2 * A)"
    using assms(6) by (simp only: twoA)
  have "(a - b) * (a - b) = \<bar>a - b\<bar> * \<bar>a - b\<bar>"
    by simp
  also have "\<dots> \<le> (3 / 5 * (2 * A)) * (g * (2 * A))"
    using d1 d2 A assms(7) by (intro mult_mono) simp_all
  finally have "(a - b) * (a - b) / 4 \<le> (3 / 5 * g * A) * A"
    by (simp add: mult_ac)
  then have "(A - G) * A \<le> (3 / 5 * g * A) * A"
    using m(3) by linarith
  then have AG: "A - G \<le> 3 / 5 * g * A"
    using A by (simp only: mult_le_cancel_right)
  have AG0: "0 \<le> A - G"
    using m(2) by simp
  have up: "an_r rnd a b - bn_r rnd a b \<le> (A - G) + A * (round_hi - round_lo)"
  proof -
    have "an_r rnd a b - bn_r rnd a b \<le> A * round_hi - G * round_lo"
      using an(2) bn(1) by linarith
    also have "\<dots> = (A - G) * round_lo + A * (round_hi - round_lo)"
      by (simp add: algebra_simps)
    also have "\<dots> \<le> (A - G) * 1 + A * (round_hi - round_lo)"
      using AG0 f(2) by (intro add_right_mono mult_left_mono)
    finally show ?thesis by simp
  qed
  have down: "bn_r rnd a b - an_r rnd a b \<le> (A - G) + A * (round_hi - round_lo)"
  proof -
    have "G * round_hi \<le> A * round_hi"
      using m(2) f(8) by (intro mult_right_mono) simp_all
    then have "bn_r rnd a b - an_r rnd a b \<le> A * round_hi - A * round_lo"
      using an(1) bn(2) by linarith
    also have "\<dots> = A * (round_hi - round_lo)"
      by (simp add: algebra_simps)
    finally show ?thesis using AG0 by linarith
  qed
  have "\<bar>an_r rnd a b - bn_r rnd a b\<bar> \<le> (A - G) + A * (round_hi - round_lo)"
    using up down by (simp add: abs_le_iff)
  also have "\<dots> \<le> 3 / 5 * g * A + A * (4 * unit_roundoff)"
    using AG by (simp add: f(6))
  also have "\<dots> = (3 / 5 * g + 4 * unit_roundoff) * A"
    by (simp add: algebra_simps)
  also have "\<dots> \<le> (g' * round_lo) * A"
    using assms(8) A by (intro mult_right_mono) simp_all
  also have "\<dots> = g' * (A * round_lo)" by simp
  also have "\<dots> \<le> g' * (an_r rnd a b + bn_r rnd a b)"
  proof (intro mult_left_mono)
    have "0 < G * round_lo" using m(1) f(7) by (rule mult_pos_pos)
    then show "A * round_lo \<le> an_r rnd a b + bn_r rnd a b"
      using an(1) bn(1) by linarith
    have "0 \<le> 3 / 5 * g + 4 * unit_roundoff"
      using assms(7) eps_small by simp
    then have "0 \<le> g' * round_lo" using assms(8) by linarith
    then show "0 \<le> g'"
      using f(7) by (simp add: zero_le_mult_iff)
  qed
  finally show ?thesis .
qed

lemma rounded_Fin_ops:
  "rounded rnd (Fin x + Fin y) = Fin (rnd (x + y))"
  "rounded rnd (Fin x - Fin y) = Fin (rnd (x - y))"
  "rounded rnd (Fin x * Fin y) = Fin (rnd (x * y))"
  "Fin x / Fin 2 = Fin (x / 2)"
  "Fin x + Fin y = Fin (x + y)"
  "Fin x * Fin y = Fin (x * y)"
  by simp_all

lemma agm_loop_rounded_Fin:
  assumes "\<not> rnd (a * b) < 0"
  shows "agm_loop_rounded rnd (Fin a) (Fin b) (Fin c) (Fin s) (Fin p) =
    (if rnd (rnd (1 / 10 ^ 14) * a) < \<bar>c\<bar> then
       agm_loop_rounded rnd (Fin (an_r rnd a b)) (Fin (bn_r rnd a b)) (Fin (cn_r rnd a b))
         (Fin (rnd (s + rnd (rnd (p * cn_r rnd a b) * cn_r rnd a b)))) (Fin (rnd (p * 2)))
     else Some (Fin a, Fin b, Fin c, Fin s, Fin p))"
proof -
  have sq: "Math_sqrt (Fin (rnd (a * b))) = Fin (sqrt (rnd (a * b)))"
    using assms by simp
  have t: "rounded rnd (rounded rnd tol * Fin a) = Fin (rnd (rnd (1 / 10 ^ 14) * a))"
    by (simp add: tol_def)
  show ?thesis
    by (subst agm_loop_rounded.simps)
       (simp only: Let_def rounded_Fin_ops rounded.simps sq t an_r_def bn_r_def cn_r_def
          abs_number.simps less_number.simps)
qed

lemma agm_loop_rounded_exit:
  assumes "\<not> rnd (rnd (1 / 10 ^ 14) * a) < \<bar>c\<bar>"
  shows "agm_loop_rounded rnd (Fin a) (Fin b) (Fin c) (Fin s) (Fin p) =
           Some (Fin a, Fin b, Fin c, Fin s, Fin p)"
proof -
  have t: "rounded rnd (rounded rnd tol * Fin a) = Fin (rnd (rnd (1 / 10 ^ 14) * a))"
    by (simp add: tol_def)
  show ?thesis
    by (subst agm_loop_rounded.simps)
       (simp only: t abs_number.simps less_number.simps assms if_False)
qed

lemma halts_exit:
  assumes "\<not> rnd (rnd (1 / 10 ^ 14) * a) < \<bar>c\<bar>" "0 < a"
  shows "halts rnd a b c"
  unfolding halts_def
proof (intro allI)
  fix s p
  have "agm_loop_rounded rnd (Fin a) (Fin b) (Fin c) (Fin s) (Fin p) =
          Some (Fin a, Fin b, Fin c, Fin s, Fin p)"
    using assms(1) by (rule agm_loop_rounded_exit)
  then show "\<exists>a' b' c' s' p'.
        agm_loop_rounded rnd (Fin a) (Fin b) (Fin c) (Fin s) (Fin p) =
          Some (Fin a', Fin b', Fin c', Fin s', Fin p') \<and> 0 < a'"
    using assms(2) by (intro exI [of _ a] exI [of _ b] exI [of _ c] exI [of _ s] exI [of _ p] conjI)
qed

lemma halts_step:
  assumes "rounding rnd" "0 < a" "0 < b"
      and "halts rnd (an_r rnd a b) (bn_r rnd a b) (cn_r rnd a b)"
  shows "halts rnd a b c"
  unfolding halts_def
proof (intro allI)
  fix s p
  let ?goal = "\<exists>a' b' c' s' p'.
        agm_loop_rounded rnd (Fin a) (Fin b) (Fin c) (Fin s) (Fin p) =
          Some (Fin a', Fin b', Fin c', Fin s', Fin p') \<and> 0 < a'"
  have "0 < rnd (a * b)"
    using rounding_pos [OF assms(1), of "a * b"] assms(2,3) by simp
  then have ab: "\<not> rnd (a * b) < 0"
    by simp
  show ?goal
  proof (cases "rnd (rnd (1 / 10 ^ 14) * a) < \<bar>c\<bar>")
    case False
    have "agm_loop_rounded rnd (Fin a) (Fin b) (Fin c) (Fin s) (Fin p) =
          Some (Fin a, Fin b, Fin c, Fin s, Fin p)"
      using False by (rule agm_loop_rounded_exit)
    then show ?thesis
      using assms(2) by (intro exI [of _ a] exI [of _ b] exI [of _ c] exI [of _ s] exI [of _ p] conjI)
  next
    case True
    let ?s = "rnd (s + rnd (rnd (p * cn_r rnd a b) * cn_r rnd a b))"
    from assms(4) have h: "\<forall>s p. \<exists>a' b' c' s' p'.
        agm_loop_rounded rnd (Fin (an_r rnd a b)) (Fin (bn_r rnd a b)) (Fin (cn_r rnd a b))
          (Fin s) (Fin p) = Some (Fin a', Fin b', Fin c', Fin s', Fin p') \<and> 0 < a'"
      unfolding halts_def .
    from h [rule_format, of ?s "rnd (p * 2)"] obtain a' b' c' s' p' where
      r: "agm_loop_rounded rnd (Fin (an_r rnd a b)) (Fin (bn_r rnd a b)) (Fin (cn_r rnd a b))
          (Fin ?s) (Fin (rnd (p * 2))) = Some (Fin a', Fin b', Fin c', Fin s', Fin p')"
      and a': "0 < a'"
      by (elim exE conjE)
    have step: "agm_loop_rounded rnd (Fin a) (Fin b) (Fin c) (Fin s) (Fin p) =
        (if rnd (rnd (1 / 10 ^ 14) * a) < \<bar>c\<bar> then
           agm_loop_rounded rnd (Fin (an_r rnd a b)) (Fin (bn_r rnd a b)) (Fin (cn_r rnd a b))
             (Fin ?s) (Fin (rnd (p * 2)))
         else Some (Fin a, Fin b, Fin c, Fin s, Fin p))"
      using ab by (rule agm_loop_rounded_Fin)
    have "agm_loop_rounded rnd (Fin a) (Fin b) (Fin c) (Fin s) (Fin p) =
            Some (Fin a', Fin b', Fin c', Fin s', Fin p')"
      unfolding step r [symmetric] using True by (simp only: if_True)
    then show ?thesis
      using a' by (intro exI [of _ a'] exI [of _ b'] exI [of _ c'] exI [of _ s'] exI [of _ p'] conjI)
  qed
qed

lemma exit_threshold:
  assumes "rounding rnd" "0 < a" "\<bar>c\<bar> \<le> 1 / 10 ^ 14 * a * round_lo"
  shows "\<not> rnd (rnd (1 / 10 ^ 14) * a) < \<bar>c\<bar>"
proof -
  have t: "(0::real) \<le> 1 / 10 ^ 14" by simp
  note r = rounding_bounds [OF assms(1) t]
  have "1 / 10 ^ 14 * a * round_lo \<le> rnd (rnd (1 / 10 ^ 14) * a)"
  proof (rule rounding_twice(1) [OF assms(1)])
    show "0 \<le> 1 / 10 ^ 14 * a" using assms(2) by simp
    have "1 / 10 ^ 14 * (1 - unit_roundoff) * a \<le> rnd (1 / 10 ^ 14) * a"
      using r(1) assms(2) by (intro mult_right_mono) simp_all
    then show "1 / 10 ^ 14 * a * (1 - unit_roundoff) \<le> rnd (1 / 10 ^ 14) * a"
      by (simp add: mult_ac)
    have "rnd (1 / 10 ^ 14) * a \<le> 1 / 10 ^ 14 * (1 + unit_roundoff) * a"
      using r(2) assms(2) by (intro mult_right_mono) simp_all
    then show "rnd (1 / 10 ^ 14) * a \<le> 1 / 10 ^ 14 * a * (1 + unit_roundoff)"
      by (simp add: mult_ac)
  qed
  then show ?thesis
    using assms(3) by linarith
qed

lemma gamma_facts:
  "0 \<le> gamma n" "3 / 5 * gamma (Suc n) + 4 * unit_roundoff \<le> gamma n * round_lo"
  "gamma 1 * round_hi \<le> 1 / 10 ^ 14 * round_lo * round_lo"
proof -
  define X :: real where "X = 5 / 10 ^ 15 * (3 / 2) ^ n"
  have X: "0 \<le> X" by (simp add: X_def)
  have g: "gamma n = 12 * unit_roundoff + X" "gamma (Suc n) = 12 * unit_roundoff + 3 / 2 * X"
    by (simp_all add: gamma_def X_def)
  show g0: "0 \<le> gamma n"
    using X eps_small unfolding g by simp
  have "3 / 5 * gamma (Suc n) + 4 * unit_roundoff \<le> gamma n * (99 / 100)"
    using X eps_small unfolding g by simp
  also have "\<dots> \<le> gamma n * round_lo"
    using g0 lo_hi_facts(1) by (intro mult_left_mono) simp_all
  finally show "3 / 5 * gamma (Suc n) + 4 * unit_roundoff \<le> gamma n * round_lo" .
  have e: "unit_roundoff \<le> 1 / (8 * 10 ^ 15)"
    by (simp add: unit_roundoff_def)
  have "gamma 1 \<le> 9 / 10 ^ 15"
    using e by (simp add: gamma_def)
  moreover have "0 \<le> gamma 1" "round_hi \<le> 101 / 100" "0 \<le> round_hi"
    using eps_small by (simp_all add: gamma_def round_hi_def unit_roundoff_def)
  ultimately have "gamma 1 * round_hi \<le> 9 / 10 ^ 15 * (101 / 100)"
    by (intro mult_mono) simp_all
  moreover have "99 / 100 * (99 / 100) \<le> round_lo * round_lo"
    using lo_hi_facts(1) by (intro mult_mono) simp_all
  ultimately show "gamma 1 * round_hi \<le> 1 / 10 ^ 14 * round_lo * round_lo"
    by simp
qed

lemma phase2:
  assumes "rounding rnd"
  shows "0 < a \<Longrightarrow> 0 < b \<Longrightarrow> a \<le> 4 * b \<Longrightarrow> b \<le> 4 * a \<Longrightarrow> \<bar>a - b\<bar> \<le> gamma n * (a + b) \<Longrightarrow>
         \<bar>c\<bar> * round_lo \<le> gamma (Suc n) * round_hi * a \<Longrightarrow> halts rnd a b c"
proof (induction n arbitrary: a b c)
  case 0
  have "\<bar>c\<bar> * round_lo \<le> gamma 1 * round_hi * a"
    using "0.prems"(6) by simp
  also have "\<dots> \<le> (1 / 10 ^ 14 * round_lo * round_lo) * a"
    using gamma_facts(3) "0.prems"(1) by (intro mult_right_mono) simp_all
  also have "\<dots> = (1 / 10 ^ 14 * a * round_lo) * round_lo"
    by simp
  finally have "\<bar>c\<bar> \<le> 1 / 10 ^ 14 * a * round_lo"
    using lo_hi_facts(7) by (simp only: mult_le_cancel_right)
  then show ?case
    using exit_threshold [OF assms "0.prems"(1)] halts_exit "0.prems"(1) by blast
next
  case (Suc n)
  note f = lo_hi_facts
  let ?an = "an_r rnd a b" and ?bn = "bn_r rnd a b" and ?cn = "cn_r rnd a b"
  have q: "1 / 2 * ((a + b) / 2) \<le> sqrt (a * b)"
    using Suc.prems by (intro gm_lower [where w = "1 / 4"]) simp_all
  note rs = ratio_step [OF assms Suc.prems(1,2) _ q]
  have an0: "0 < ?an" and bn0: "0 < ?bn"
    using rs(1,2) by simp_all
  have "1 / 2 * round_lo * ?an \<le> round_hi * ?bn"
    using rs(3) by simp
  also have "round_hi * ?bn \<le> (2 * round_lo) * ?bn"
    using f(4) bn0 by (intro mult_right_mono) simp_all
  finally have "round_lo * ?an \<le> round_lo * (4 * ?bn)"
    by simp
  then have r1: "?an \<le> 4 * ?bn"
    using f(7) by (simp only: mult_le_cancel_left)
  have "round_lo * ?bn \<le> round_hi * ?an"
    using rs(4) by simp
  also have "round_hi * ?an \<le> (2 * round_lo) * ?an"
    using f(4) an0 by (intro mult_right_mono) simp_all
  finally have "round_lo * ?bn \<le> round_lo * (2 * ?an)"
    by simp
  then have "?bn \<le> 2 * ?an"
    using f(7) by (simp only: mult_le_cancel_left)
  then have r2: "?bn \<le> 4 * ?an"
    using an0 by linarith
  have gap: "\<bar>?an - ?bn\<bar> \<le> gamma n * (?an + ?bn)"
    using Suc.prems gamma_facts(1,2) by (intro gap_step [OF assms, where g = "gamma (Suc n)"]) simp_all
  have cn: "\<bar>?cn\<bar> * round_lo \<le> gamma (Suc n) * round_hi * ?an"
    using Suc.prems gamma_facts(1) by (intro c_step [OF assms]) simp_all
  have "halts rnd ?an ?bn ?cn"
    using an0 bn0 r1 r2 gap cn by (rule Suc.IH)
  then show ?case
    using halts_step [OF assms Suc.prems(1,2)] by blast
qed

lemma phase2_entry:
  assumes "rounding rnd" "0 < a" "0 < b" "1 / 4 \<le> r" "r * a \<le> b" "r * b \<le> a"
      and "\<bar>c\<bar> * round_lo \<le> round_hi * a"
  shows "halts rnd a b c"
proof -
  obtain N :: nat where "1 / (5 / 10 ^ 15) < (3 / 2 :: real) ^ N"
    using real_arch_pow [of "3 / 2" "1 / (5 / 10 ^ 15)"] by auto
  then have big: "1 \<le> 5 / 10 ^ 15 * (3 / 2 :: real) ^ N"
    by (simp add: field_simps)
  have g1: "1 \<le> gamma N"
    using big eps_small by (simp add: gamma_def)
  have "5 / 10 ^ 15 * (3 / 2 :: real) ^ N \<le> 5 / 10 ^ 15 * (3 / 2) ^ Suc N"
    by simp
  then have g2: "1 \<le> gamma (Suc N)"
    using big eps_small unfolding gamma_def by linarith
  have a4: "a \<le> 4 * b" "b \<le> 4 * a"
  proof -
    have "1 / 4 * a \<le> r * a" "1 / 4 * b \<le> r * b"
      using assms(2,3,4) by (simp_all add: mult_right_mono)
    then show "a \<le> 4 * b" "b \<le> 4 * a"
      using assms(5,6) by linarith+
  qed
  have "\<bar>a - b\<bar> \<le> 1 * (a + b)"
    using assms(2,3) by (intro abs_leI) simp_all
  also have "\<dots> \<le> gamma N * (a + b)"
    using g1 assms(2,3) by (intro mult_right_mono) simp_all
  finally have gap: "\<bar>a - b\<bar> \<le> gamma N * (a + b)" .
  have "round_hi * a = 1 * (round_hi * a)" by simp
  also have "\<dots> \<le> gamma (Suc N) * (round_hi * a)"
    using g2 assms(2) lo_hi_facts(8) by (intro mult_right_mono) simp_all
  finally have "\<bar>c\<bar> * round_lo \<le> gamma (Suc N) * round_hi * a"
    using assms(7) by (simp add: mult.assoc)
  then show ?thesis
    using phase2 [OF assms(1,2,3) a4 gap] by blast
qed

lemma phase1_step:
  assumes "rounding rnd" "0 < a" "0 < b" "0 < r" "r \<le> 1 / 4" "r * a \<le> b" "r * b \<le> a"
  shows "0 < an_r rnd a b" "0 < bn_r rnd a b"
    "19 / 10 * r * an_r rnd a b \<le> bn_r rnd a b"
    "19 / 10 * r * bn_r rnd a b \<le> an_r rnd a b"
    "\<bar>cn_r rnd a b\<bar> * round_lo \<le> round_hi * an_r rnd a b"
proof -
  note f = lo_hi_facts
  let ?an = "an_r rnd a b" and ?bn = "bn_r rnd a b"
  have "(2 * r) * (2 * r) = (4 * r) * r" by simp
  also have "\<dots> \<le> 1 * r"
    using assms(4,5) by (intro mult_right_mono) simp_all
  finally have qq: "(2 * r) * (2 * r) \<le> r" by simp
  have q: "2 * r * ((a + b) / 2) \<le> sqrt (a * b)"
    using assms qq by (intro gm_lower [where w = r]) simp_all
  have q0: "0 \<le> 2 * r" using assms(4) by simp
  note rs = ratio_step [OF assms(1,2,3) q0 q]
  show an0: "0 < ?an" and bn0: "0 < ?bn"
    using rs(1,2) by simp_all
  have "round_hi * (19 / 10 * r * ?an) = (19 / 10 * round_hi) * (r * ?an)" by simp
  also have "\<dots> \<le> (2 * round_lo) * (r * ?an)"
    using f(5) assms(4) an0 by (intro mult_right_mono) simp_all
  also have "\<dots> = 2 * r * round_lo * ?an" by simp
  also have "\<dots> \<le> round_hi * ?bn" by (rule rs(3))
  finally show "19 / 10 * r * ?an \<le> ?bn"
    using f(8) by (simp only: mult_le_cancel_left)
  have "19 / 10 * r \<le> 19 / 40"
    using assms(5) by simp
  then have "round_lo * (19 / 10 * r * ?bn) \<le> round_lo * (19 / 40 * ?bn)"
    using bn0 f(7) by (intro mult_left_mono mult_right_mono) simp_all
  also have "\<dots> = 19 / 40 * (round_lo * ?bn)" by simp
  also have "\<dots> \<le> 19 / 40 * (round_hi * ?an)"
    using rs(4) by (intro mult_left_mono) simp_all
  also have "\<dots> = (19 / 40 * round_hi) * ?an" by simp
  also have "\<dots> \<le> round_lo * ?an"
    using f(5) f(7) an0 by (intro mult_right_mono) simp_all
  finally show "19 / 10 * r * ?bn \<le> ?an"
    using f(7) by (simp only: mult_le_cancel_left)
  have "\<bar>a - b\<bar> \<le> 1 * (a + b)"
    using assms(2,3) by (intro abs_leI) simp_all
  then have "\<bar>cn_r rnd a b\<bar> * round_lo \<le> 1 * round_hi * ?an"
    using assms(1,2,3) by (intro c_step) simp_all
  then show "\<bar>cn_r rnd a b\<bar> * round_lo \<le> round_hi * ?an" by simp
qed

lemma phase1:
  assumes "rounding rnd"
  shows "0 < a \<Longrightarrow> 0 < b \<Longrightarrow> 0 < r \<Longrightarrow> r * a \<le> b \<Longrightarrow> r * b \<le> a \<Longrightarrow> 1 / 4 \<le> r * (19 / 10) ^ n \<Longrightarrow>
         \<bar>c\<bar> * round_lo \<le> round_hi * a \<Longrightarrow> halts rnd a b c"
proof (induction n arbitrary: a b c r)
  case 0
  then have "1 / 4 \<le> r" by simp
  then show ?case
    using "0.prems" by (intro phase2_entry [OF assms, where r = r]) simp_all
next
  case (Suc n)
  show ?case
  proof (cases "1 / 4 \<le> r")
    case True
    then show ?thesis
      using Suc.prems by (intro phase2_entry [OF assms, where r = r]) simp_all
  next
    case False
    then have r: "r \<le> 1 / 4" by simp
    note st = phase1_step [OF assms Suc.prems(1,2,3) r Suc.prems(4,5)]
    have "halts rnd (an_r rnd a b) (bn_r rnd a b) (cn_r rnd a b)"
    proof (rule Suc.IH [where r = "19 / 10 * r"])
      show "0 < 19 / 10 * r" using Suc.prems(3) by simp
      show "1 / 4 \<le> 19 / 10 * r * (19 / 10) ^ n"
        using Suc.prems(6) by (simp add: mult_ac)
    qed (use st in simp_all)
    then show ?thesis
      by (rule halts_step [OF assms Suc.prems(1,2)])
  qed
qed

lemma ellipticKE_rounded_returns:
  assumes "rounding rnd" "0 \<le> m" "m < 1"
  shows "\<exists>K E. ellipticKE_rounded rnd (Fin m) = returns (Fin K, Fin E)"
proof -
  note f = lo_hi_facts
  define w where "w = rnd (1 - m)"
  define b where "b = rnd (sqrt w)"
  define c where "c = rnd (1 - b)"
  have w0: "0 < w"
    unfolding w_def using rounding_pos [OF assms(1), of "1 - m"] assms(3) by simp
  have "w \<le> (1 - m) * (1 + unit_roundoff)"
    unfolding w_def using rounding_bounds(2) [OF assms(1), of "1 - m"] assms(3) by simp
  also have "\<dots> \<le> 1 * (1 + unit_roundoff)"
    using assms eps_small by (intro mult_right_mono) simp_all
  finally have w1: "w \<le> 1 + unit_roundoff" by simp
  have sw0: "0 < sqrt w"
    using w0 by simp
  have "sqrt w \<le> sqrt (1 + unit_roundoff)"
    using w1 by (rule real_sqrt_le_mono)
  then have sw1: "sqrt w \<le> 1 + unit_roundoff"
    using sqrt_factor(2) by linarith
  have b0: "0 < b"
    unfolding b_def using rounding_pos [OF assms(1) sw0] .
  have "b \<le> sqrt w * (1 + unit_roundoff)"
    unfolding b_def using rounding_bounds(2) [OF assms(1), of "sqrt w"] sw0 by simp
  also have "\<dots> \<le> (1 + unit_roundoff) * (1 + unit_roundoff)"
    using sw1 eps_small by (intro mult_right_mono) simp_all
  finally have "b \<le> round_hi" by (simp add: round_hi_def)
  then have b2: "b \<le> 2"
    using f(2,4) by linarith
  have "\<bar>c\<bar> \<le> \<bar>1 - b\<bar> * (1 + unit_roundoff)"
    unfolding c_def using rounding_abs [OF assms(1), of "1 - b"] .
  also have "\<dots> \<le> 1 * (1 + unit_roundoff)"
    using b0 b2 eps_small by (intro mult_right_mono) (simp_all add: abs_le_iff)
  finally have c1: "\<bar>c\<bar> \<le> 1 + unit_roundoff" by simp
  have "1 + unit_roundoff \<le> round_hi"
    using eps_small by (simp add: round_hi_def algebra_simps)
  then have "\<bar>c\<bar> \<le> round_hi" using c1 by linarith
  moreover have "\<bar>c\<bar> * round_lo \<le> \<bar>c\<bar> * 1"
    using f(2) by (intro mult_left_mono) simp_all
  ultimately have cb: "\<bar>c\<bar> * round_lo \<le> round_hi * 1" by simp
  define r where "r = min b (1 / 2)"
  have r: "0 < r" "r * 1 \<le> b" "r * b \<le> 1"
  proof -
    show "0 < r" "r * 1 \<le> b" using b0 by (simp_all add: r_def)
    have "r * b \<le> 1 / 2 * 2"
      using b0 b2 by (intro mult_mono) (simp_all add: r_def)
    then show "r * b \<le> 1" by simp
  qed
  obtain n :: nat where "1 / 4 / r < (19 / 10) ^ n"
    using real_arch_pow [of "19 / 10" "1 / 4 / r"] by auto
  then have n: "1 / 4 \<le> r * (19 / 10) ^ n"
    using r(1) by (simp add: field_simps)
  have "halts rnd 1 b c"
    using r n cb b0 by (intro phase1 [OF assms(1), where r = r and n = n]) simp_all
  then obtain a' b' c' s' p' where
    loop: "agm_loop_rounded rnd (Fin 1) (Fin b) (Fin c) (Fin 0) (Fin 1) =
             Some (Fin a', Fin b', Fin c', Fin s', Fin p')" and a': "0 < a'"
    unfolding halts_def by blast
  have "0 < rnd (2 * a')"
    using rounding_pos [OF assms(1), of "2 * a'"] a' by simp
  then have nz: "rnd (2 * a') \<noteq> 0"
    by simp
  have "\<not> w < 0" using w0 by simp
  then show ?thesis
    using assms(2,3) loop nz
    by (simp add: ellipticKE_rounded_def Let_def w_def b_def c_def returns_def)
qed

text \<open>
  C9. For every parameter \<open>m\<close> with \<open>0 \<le> m < 1\<close> the loop of \<open>ellipticKE\<close> ends, although
  it has no iteration cap, and \<open>ellipticKE\<close> returns a pair of finite numbers: in exact
  arithmetic, and also when every operation is rounded by a rounding function.
\<close>

theorem ellipticKE_total_on_domain:
  fixes m :: real
  assumes "0 \<le> m" "m < 1"
  shows "(\<exists>K E. ellipticKE (Fin m) = returns (Fin K, Fin E))
       \<and> (\<forall>rnd. rounding rnd \<longrightarrow> (\<exists>K E. ellipticKE_rounded rnd (Fin m) = returns (Fin K, Fin E)))"
  using ellipticKE_returns [OF assms] ellipticKE_rounded_returns [OF _ assms] by blast

theorem ellipticKE_total_on_domain_witness:
  "(0::real) \<le> 1 / 2 \<and> (1 / 2 :: real) < 1 \<and> rounding (\<lambda>x. x)
   \<and> (\<exists>K E. ellipticKE (Fin (1 / 2)) = returns (Fin K, Fin E))
   \<and> (\<exists>K E. ellipticKE_rounded (\<lambda>x. x) (Fin (1 / 2)) = returns (Fin K, Fin E))"
proof -
  have r: "rounding (\<lambda>x. x)"
    by (simp add: rounding_def unit_roundoff_def)
  show ?thesis
    using r ellipticKE_total_on_domain [of "1 / 2"] by simp
qed

section \<open>The integral of the second kind\<close>

lemma central_ratio_bounds: "0 \<le> central_ratio n" "central_ratio n \<le> 1"
proof -
  show "0 \<le> central_ratio n"
    by (simp add: central_ratio_def)
  have "(2 * n) choose n \<le> 2 ^ (2 * n)"
    by (rule binomial_le_pow2)
  then have "real ((2 * n) choose n) \<le> real (2 ^ (2 * n))"
    by (rule of_nat_mono)
  also have "real (2 ^ (2 * n)) = 4 ^ n"
    by (simp add: power_mult)
  finally show "central_ratio n \<le> 1"
    by (simp add: central_ratio_def)
qed

lemma E_series_term_bounds:
  assumes "0 \<le> m"
  shows "0 \<le> E_series_term m n" "E_series_term m n \<le> m * m ^ n"
proof -
  have c: "0 \<le> (central_ratio (Suc n))\<^sup>2" "(central_ratio (Suc n))\<^sup>2 \<le> 1"
    using central_ratio_bounds [of "Suc n"] by (simp_all add: power_le_one)
  have d: "(central_ratio (Suc n))\<^sup>2 / real (2 * n + 1) \<le> 1"
  proof -
    have "(central_ratio (Suc n))\<^sup>2 / real (2 * n + 1) \<le> 1 / real (2 * n + 1)"
      using c(2) by (rule divide_right_mono) simp
    also have "\<dots> \<le> 1"
      by simp
    finally show ?thesis .
  qed
  have p: "0 \<le> m ^ Suc n"
    using assms by simp
  show "0 \<le> E_series_term m n"
    using c(1) p unfolding E_series_term_def by (intro mult_nonneg_nonneg divide_nonneg_nonneg) simp_all
  have "(central_ratio (Suc n))\<^sup>2 / real (2 * n + 1) * m ^ Suc n \<le> 1 * m ^ Suc n"
    using d p by (rule mult_right_mono)
  then show "E_series_term m n \<le> m * m ^ n"
    by (simp add: E_series_term_def)
qed

lemma E_series_summable:
  assumes "0 \<le> m" "m < 1"
  shows "summable (E_series_term m)"
proof (rule summable_comparison_test)
  show "\<exists>N. \<forall>n\<ge>N. norm (E_series_term m n) \<le> m * m ^ n"
    using E_series_term_bounds [OF assms(1)] by (auto simp: abs_of_nonneg)
  have "summable (\<lambda>n. m ^ n)"
    using assms by (intro summable_geometric) simp
  then show "summable (\<lambda>n. m * m ^ n)"
    by (rule summable_mult)
qed

lemma E_reference_upper:
  assumes "0 \<le> m" "m < 1"
  shows "E_reference m \<le> pi / 2 * (1 - m / 4)"
proof -
  have "sum (E_series_term m) {..<1} \<le> (\<Sum>n. E_series_term m n)"
    using E_series_summable [OF assms] E_series_term_bounds(1) [OF assms(1)]
    by (intro sum_le_suminf) auto
  moreover have "sum (E_series_term m) {..<1} = m / 4"
    by (simp add: E_series_term_def central_ratio_def power2_eq_square)
  ultimately have "1 - (\<Sum>n. E_series_term m n) \<le> 1 - m / 4"
    by simp
  then show ?thesis
    unfolding E_reference_def by (intro mult_left_mono) simp_all
qed

text \<open>
  C1. The claim is that \<open>K\<close> and \<open>E\<close> agree with the complete elliptic integrals to ten
  digits. The loop accumulates \<open>c\<^sub>1\<^sup>2 + 2 c\<^sub>2\<^sup>2 + 4 c\<^sub>3\<^sup>2 + \<dots>\<close> from \<open>sum = 0\<close>, so the
  term \<open>c\<^sub>0\<^sup>2 / 2 = m / 2\<close> of the formula \<open>E = K (1 - \<Sum>n\<ge>0. 2\<^sup>n\<^sup>-\<^sup>1 c\<^sub>n\<^sup>2)\<close> is missing. At
  \<open>m = 3/4\<close> the returned \<open>E\<close> is at least \<open>14 pi / 32\<close>, while the reference value is at
  most \<open>13 pi / 32\<close>: they differ by more than 7%.
\<close>

theorem ellipticKE_second_kind_is_off:
  "\<exists>K E. ellipticKE (Fin (3 / 4)) = returns (Fin K, Fin E)
         \<and> E_reference (3 / 4) \<le> 13 * pi / 32 \<and> 14 * pi / 32 \<le> E"
proof -
  have half: "sqrt (1 - 3 / 4) = (1 / 2 :: real)"
    by (simp add: real_sqrt_divide)
  obtain a' s' where
    r: "ellipticKE (Fin (3 / 4)) = returns (Fin (pi / (2 * a')), Fin (pi / (2 * a') * (1 - s')))"
    and a': "1 / 2 \<le> a'" "a' \<le> 1" and s': "0 \<le> s'" "s' \<le> (1 - 1 / 2) * (1 - 1 / 2) / 2"
    using ellipticKE_returns [of "3 / 4"] unfolding half by auto
  have K: "pi / 2 \<le> pi / (2 * a')"
    using a' by (intro divide_left_mono) simp_all
  have "0 \<le> pi / (2 * a')"
    using a' by simp
  then have "pi / 2 * (7 / 8) \<le> pi / (2 * a') * (1 - s')"
    using K s' by (intro mult_mono) simp_all
  then have E: "14 * pi / 32 \<le> pi / (2 * a') * (1 - s')"
    by simp
  have "E_reference (3 / 4) \<le> pi / 2 * (1 - (3 / 4) / 4)"
    by (rule E_reference_upper) simp_all
  then have "E_reference (3 / 4) \<le> 13 * pi / 32"
    by simp
  then show ?thesis
    using r E by blast
qed

section \<open>The Helmholtz pair as a sum of two loops\<close>

lemma helmholtz_sum:
  "helmholtzField x_cm y_cm z_cm R_cm V Omega N =
     (let x = x_cm * Fin (1 / 10 ^ 2);
          y = y_cm * Fin (1 / 10 ^ 2);
          z = z_cm * Fin (1 / 10 ^ 2);
          R = R_cm * Fin (1 / 10 ^ 2);
          I = V / Omega
      in and_then (loopField I N x y z R ((- R) / Fin 2)) (\<lambda>b1.
         and_then (loopField I N x y z R (R / Fin 2)) (\<lambda>b2.
         returns (add_vec b1 b2))))"
  by (auto simp: helmholtzField_def Let_def and_then_def returns_def add_vec_def
           split: option.splits sum.splits prod.splits)

text \<open>
  Where both loop evaluations return, \<open>helmholtzField\<close> returns their sum, component by
  component: the reduction starts from \<open>[0, 0, 0]\<close>, and \<open>0 + v\<close> is \<open>v\<close>.
\<close>

lemma helmholtz_componentwise_sum:
  assumes "loopField (V / Omega) N (x_cm * Fin (1 / 10 ^ 2)) (y_cm * Fin (1 / 10 ^ 2))
             (z_cm * Fin (1 / 10 ^ 2)) (R_cm * Fin (1 / 10 ^ 2))
             ((- (R_cm * Fin (1 / 10 ^ 2))) / Fin 2) = returns (b1x, b1y, b1z)"
      and "loopField (V / Omega) N (x_cm * Fin (1 / 10 ^ 2)) (y_cm * Fin (1 / 10 ^ 2))
             (z_cm * Fin (1 / 10 ^ 2)) (R_cm * Fin (1 / 10 ^ 2))
             ((R_cm * Fin (1 / 10 ^ 2)) / Fin 2) = returns (b2x, b2y, b2z)"
  shows "helmholtzField x_cm y_cm z_cm R_cm V Omega N = returns (b1x + b2x, b1y + b2y, b1z + b2z)"
  unfolding helmholtz_sum Let_def assms
  by (simp add: and_then_def returns_def add_vec_def)

section \<open>The field on the axis\<close>

lemma loopField_on_axis:
  assumes "R \<noteq> 0"
  shows "loopField (Fin I) (Fin N) (Fin x) (Fin 0) (Fin 0) (Fin R) (Fin x0) =
           returns (Fin (4 * pi * (1 / 10 ^ 7) * I * N * R * R /
                         (2 * (R * R + (x - x0) * (x - x0)) powr (3 / 2))), Fin 0, Fin 0)"
proof -
  have "0 < R * R"
    using assms by (auto simp: zero_less_mult_iff neq_iff)
  moreover have "0 \<le> t * t" for t :: real
    by simp
  ultimately have pos: "0 < R * R + t * t" for t
    by (simp add: add_pos_nonneg)
  have nn: "\<not> R * R + t * t < 0" for t
    using pos [of t] by simp
  show ?thesis
    using assms nn by (simp add: loopField_def mu0_def Let_def)
qed

lemma loopFieldMeters_on_axis:
  assumes "R \<noteq> 0"
  shows "loopFieldMeters (Fin x) (Fin 0) (Fin 0) (Fin R) (Fin I) (Fin N) =
           returns (Fin (4 * pi * (1 / 10 ^ 7) * I * N * R * R /
                         (2 * (R * R + x * x) powr (3 / 2))), Fin 0, Fin 0)"
proof -
  have "0 < R * R"
    using assms by (auto simp: zero_less_mult_iff neq_iff)
  moreover have "0 \<le> t * t" for t :: real
    by simp
  ultimately have pos: "0 < R * R + t * t" for t
    by (simp add: add_pos_nonneg)
  have nn: "\<not> R * R + t * t < 0" for t
    using pos [of t] by simp
  show ?thesis
    using assms nn by (simp add: loopFieldMeters_def mu0_def Let_def)
qed

text \<open>
  C4. At a point on the axis (\<open>hypot(y, z)\<close> is zero) of a loop of radius other than
  zero, both loop-field functions return
  \<open>Bx = mu0 I N R\<^sup>2 / (2 (R\<^sup>2 + zax\<^sup>2)\<^sup>1\<^sup>.\<^sup>5)\<close> and \<open>By = Bz = 0\<close>, where \<open>zax\<close> is \<open>x\<close> for
  the single coil, centred at the origin, and \<open>x - x0\<close> for a loop centred at \<open>x0\<close>.
\<close>

theorem on_axis_field:
  assumes "Math_hypot2 (Fin y) (Fin z) = Fin 0" and "R \<noteq> 0"
  shows "loopFieldMeters (Fin x) (Fin y) (Fin z) (Fin R) (Fin I) (Fin N) =
           returns (Fin (4 * pi * (1 / 10 ^ 7) * I * N * R * R /
                         (2 * (R * R + x * x) powr (3 / 2))), Fin 0, Fin 0)
         \<and> loopField (Fin I) (Fin N) (Fin x) (Fin y) (Fin z) (Fin R) (Fin x0) =
           returns (Fin (4 * pi * (1 / 10 ^ 7) * I * N * R * R /
                         (2 * (R * R + (x - x0) * (x - x0)) powr (3 / 2))), Fin 0, Fin 0)"
proof -
  have "y = 0" "z = 0"
    using assms(1) hypot2_zero_iff by blast+
  then show ?thesis
    using loopFieldMeters_on_axis [OF assms(2)] loopField_on_axis [OF assms(2)] by simp
qed

theorem on_axis_field_witness:
  "Math_hypot2 (Fin 0) (Fin 0) = Fin 0 \<and> (10::real) \<noteq> 0 \<and>
   loopFieldMeters (Fin 3) (Fin 0) (Fin 0) (Fin 10) (Fin 2) (Fin 100) =
     returns (Fin (4 * pi * (1 / 10 ^ 7) * 2 * 100 * 10 * 10 /
                   (2 * (10 * 10 + 3 * 3) powr (3 / 2))), Fin 0, Fin 0)
   \<and> loopField (Fin 2) (Fin 100) (Fin 3) (Fin 0) (Fin 0) (Fin 10) (Fin 5) =
     returns (Fin (4 * pi * (1 / 10 ^ 7) * 2 * 100 * 10 * 10 /
                   (2 * (10 * 10 + (3 - 5) * (3 - 5)) powr (3 / 2))), Fin 0, Fin 0)"
  using on_axis_field [of 0 0 10 3 2 100 5] by simp

section \<open>The field at the centre of the pair\<close>

text \<open>Bounds on \<open>pi\<close>, from the Taylor polynomial of the cosine, and on the square root of 5.\<close>

lemma cos_approx8:
  fixes x :: real
  assumes "0 < x"
  shows "\<bar>cos x - (1 - x^2 / 2 + x^4 / 24 - x^6 / 720)\<bar> \<le> x^8 / 40320"
proof -
  obtain t where t: "cos x = (\<Sum>m<8. cos_coeff m * x ^ m) + (cos (t + 1/2 * real 8 * pi) / fact 8) * x ^ 8"
    using Maclaurin_cos_expansion2 [OF assms, of 8] by auto
  have poly: "(\<Sum>m<8. cos_coeff m * x ^ m) = 1 - x^2 / 2 + x^4 / 24 - x^6 / 720"
    by (simp add: eval_nat_numeral lessThan_Suc cos_coeff_Suc sin_coeff_Suc)
  have f8: "fact 8 = (40320::real)"
    by (simp add: eval_nat_numeral)
  have "\<bar>(cos (t + 1/2 * real 8 * pi) / fact 8) * x ^ 8\<bar> = \<bar>cos (t + 1/2 * real 8 * pi)\<bar> * (x ^ 8 / 40320)"
    unfolding f8 by (simp add: abs_mult)
  also have "\<dots> \<le> 1 * (x ^ 8 / 40320)"
    by (intro mult_right_mono) simp_all
  finally have "\<bar>(cos (t + 1/2 * real 8 * pi) / fact 8) * x ^ 8\<bar> \<le> x ^ 8 / 40320"
    by simp
  then show ?thesis
    unfolding t poly by simp
qed

lemma abs_diff_pos: "\<bar>c - p\<bar> \<le> r \<Longrightarrow> 0 < p - r \<Longrightarrow> 0 < (c::real)"
  by linarith

lemma abs_diff_neg: "\<bar>c - p\<bar> \<le> r \<Longrightarrow> p + r < 0 \<Longrightarrow> (c::real) < 0"
  by linarith

lemma pi_bounds: "312 / 100 < pi" "pi < 316 / 100"
proof -
  have "\<bar>cos (39 / 25) - (1 - (39 / 25)^2 / 2 + (39 / 25)^4 / 24 - (39 / 25)^6 / 720)\<bar> \<le> (39 / 25 :: real)^8 / 40320"
    by (rule cos_approx8) simp
  moreover have "0 < (1 - (39 / 25)^2 / 2 + (39 / 25)^4 / 24 - (39 / 25)^6 / 720) - (39 / 25 :: real)^8 / 40320"
    by (simp add: power_divide)
  ultimately have pos: "0 < cos (39 / 25 :: real)"
    by (rule abs_diff_pos)
  have "39 / 25 < pi / 2"
  proof (rule ccontr)
    assume "\<not> 39 / 25 < pi / 2"
    then have "pi / 2 \<le> 39 / 25" by simp
    moreover have "(39 / 25 :: real) \<le> pi"
      using pi_ge_two by simp
    ultimately have "cos (39 / 25) \<le> cos (pi / 2)"
      by (intro cos_monotone_0_pi_le) simp_all
    then show False using pos by simp
  qed
  then show "312 / 100 < pi" by simp
  have "\<bar>cos (79 / 50) - (1 - (79 / 50)^2 / 2 + (79 / 50)^4 / 24 - (79 / 50)^6 / 720)\<bar> \<le> (79 / 50 :: real)^8 / 40320"
    by (rule cos_approx8) simp
  moreover have "(1 - (79 / 50)^2 / 2 + (79 / 50)^4 / 24 - (79 / 50)^6 / 720) + (79 / 50 :: real)^8 / 40320 < 0"
    by (simp add: power_divide)
  ultimately have neg: "cos (79 / 50 :: real) < 0"
    by (rule abs_diff_neg)
  have "pi / 2 < 79 / 50"
  proof (rule ccontr)
    assume "\<not> pi / 2 < 79 / 50"
    then have "79 / 50 \<le> pi / 2" by simp
    then have "0 \<le> cos (79 / 50 :: real)"
      by (intro cos_ge_zero) simp_all
    then show False using neg by simp
  qed
  then show "pi < 316 / 100" by simp
qed


lemma powr_three_halves: "0 \<le> a \<Longrightarrow> a powr (3 / 2) = a * sqrt a" for a :: real
proof -
  assume a: "0 \<le> a"
  have "a powr (3 / 2) = a powr (1 + 1 / 2)" by simp
  also have "\<dots> = a powr 1 * a powr (1 / 2)" by (rule powr_add)
  also have "\<dots> = a * sqrt a" using a by (simp add: powr_half_sqrt)
  finally show ?thesis .
qed

lemma sqrt5_bounds: "2236 / 1000 < sqrt 5" "sqrt 5 < 2237 / 1000"
proof -
  show "2236 / 1000 < sqrt 5"
    by (rule real_less_rsqrt) (simp add: power2_eq_square)
  show "sqrt 5 < 2237 / 1000"
    by (rule real_less_lsqrt) (simp_all add: power2_eq_square)
qed

lemma sqrt_80: "sqrt 80 = 4 * sqrt 5"
proof -
  have "sqrt 80 = sqrt (4 * 4 * 5)" by simp
  also have "\<dots> = sqrt (4 * 4) * sqrt 5" by (rule real_sqrt_mult)
  also have "sqrt (4 * 4) = (4::real)" by (simp only: real_sqrt_abs2)
  finally show ?thesis .
qed

lemma centre_loop_value:
  "4 * pi * (1 / 10 ^ 7) * 1 * 100 * (1 / 10) * (1 / 10) / (2 * ((1 / 10) * (1 / 10) + zax * zax) powr (3 / 2))
   = 4 * pi * (1 / 10 ^ 7) * 160 * sqrt 5" if "zax * zax = 1 / 400" for zax :: real
proof -
  have s: "(1 / 10) * (1 / 10) + zax * zax = 1 / 80"
    using that by simp
  have "(1 / 80 :: real) powr (3 / 2) = (1 / 80) * sqrt (1 / 80)"
    by (rule powr_three_halves) simp
  also have "\<dots> = (1 / 80) * (1 / (4 * sqrt 5))"
    by (simp add: real_sqrt_divide sqrt_80)
  finally have p: "(1 / 80 :: real) powr (3 / 2) = 1 / (320 * sqrt 5)"
    by simp
  show ?thesis
    unfolding s p by simp
qed

lemma formula_value:
  "4 * pi * (1 / 10 ^ 7) * 100 * 1 * (4 / 5) powr (3 / 2) / (1 / 10) = 4 * pi * (1 / 10 ^ 7) * 320 * sqrt 5"
proof -
  have "(4 / 5 :: real) powr (3 / 2) = (4 / 5) * sqrt (4 / 5)"
    by (rule powr_three_halves) simp
  also have "sqrt (4 / 5 :: real) = 2 / sqrt 5"
    by (simp add: real_sqrt_divide)
  also have "(2::real) / sqrt 5 = 2 * sqrt 5 / 5"
    by (simp add: field_simps)
  finally have "(4 / 5 :: real) powr (3 / 2) = 8 * sqrt 5 / 25"
    by simp
  then show ?thesis
    by simp
qed

text \<open>
  C5. At the centre of the pair, with \<open>R = 10 cm\<close>, \<open>N = 100\<close>, \<open>V = 10\<close> and
  \<open>Omega = 10\<close>, \<open>helmholtzField\<close> returns \<open>By = Bz = 0\<close> and a \<open>Bx\<close> within 1% of
  \<open>mu0 N I (4/5)\<^sup>1\<^sup>.\<^sup>5 / R\<close> (with \<open>I = 1\<close> and \<open>R = 0.1 m\<close>), which is itself within 1% of
  \<open>9.0e-4\<close>. In exact arithmetic \<open>Bx\<close> is equal to the formula.
\<close>

theorem helmholtz_centre_field:
  "\<exists>bx. helmholtzField (Fin 0) (Fin 0) (Fin 0) (Fin 10) (Fin 10) (Fin 10) (Fin 100) =
          returns (Fin bx, Fin 0, Fin 0)
      \<and> \<bar>bx - 4 * pi * (1 / 10 ^ 7) * 100 * 1 * (4 / 5) powr (3 / 2) / (1 / 10)\<bar>
          \<le> (4 * pi * (1 / 10 ^ 7) * 100 * 1 * (4 / 5) powr (3 / 2) / (1 / 10)) / 100
      \<and> \<bar>bx - 9 / 10 ^ 4\<bar> \<le> (9 / 10 ^ 4) / 100"
proof -
  let ?v = "4 * pi * (1 / 10 ^ 7) * 160 * sqrt 5"
  have l1: "loopField (Fin 1) (Fin 100) (Fin 0) (Fin 0) (Fin 0) (Fin (1 / 10)) (Fin (- (1 / 20))) =
              returns (Fin ?v, Fin 0, Fin 0)"
  proof -
    have "loopField (Fin 1) (Fin 100) (Fin 0) (Fin 0) (Fin 0) (Fin (1 / 10)) (Fin (- (1 / 20))) =
            returns (Fin (4 * pi * (1 / 10 ^ 7) * 1 * 100 * (1 / 10) * (1 / 10) /
              (2 * ((1 / 10) * (1 / 10) + (0 - - (1 / 20)) * (0 - - (1 / 20))) powr (3 / 2))), Fin 0, Fin 0)"
      by (rule loopField_on_axis) simp
    moreover have "4 * pi * (1 / 10 ^ 7) * 1 * 100 * (1 / 10) * (1 / 10) /
              (2 * ((1 / 10) * (1 / 10) + (0 - - (1 / 20)) * (0 - - (1 / 20))) powr (3 / 2)) = ?v"
      by (rule centre_loop_value) simp
    ultimately show ?thesis by (simp only:)
  qed
  have l2: "loopField (Fin 1) (Fin 100) (Fin 0) (Fin 0) (Fin 0) (Fin (1 / 10)) (Fin (1 / 20)) =
              returns (Fin ?v, Fin 0, Fin 0)"
  proof -
    have "loopField (Fin 1) (Fin 100) (Fin 0) (Fin 0) (Fin 0) (Fin (1 / 10)) (Fin (1 / 20)) =
            returns (Fin (4 * pi * (1 / 10 ^ 7) * 1 * 100 * (1 / 10) * (1 / 10) /
              (2 * ((1 / 10) * (1 / 10) + (0 - 1 / 20) * (0 - 1 / 20)) powr (3 / 2))), Fin 0, Fin 0)"
      by (rule loopField_on_axis) simp
    moreover have "4 * pi * (1 / 10 ^ 7) * 1 * 100 * (1 / 10) * (1 / 10) /
              (2 * ((1 / 10) * (1 / 10) + (0 - 1 / 20) * (0 - 1 / 20)) powr (3 / 2)) = ?v"
      by (rule centre_loop_value) simp
    ultimately show ?thesis by (simp only:)
  qed
  have h: "helmholtzField (Fin 0) (Fin 0) (Fin 0) (Fin 10) (Fin 10) (Fin 10) (Fin 100) =
             returns (Fin (4 * pi * (1 / 10 ^ 7) * 320 * sqrt 5), Fin 0, Fin 0)"
    by (simp add: helmholtz_sum Let_def l1 l2 and_then_def returns_def add_vec_def)
  have "312 / 100 * (2236 / 1000) \<le> pi * sqrt 5"
    using pi_bounds(1) sqrt5_bounds(1) by (intro mult_mono) simp_all
  moreover have "pi * sqrt 5 \<le> 316 / 100 * (2237 / 1000)"
    using pi_bounds(2) sqrt5_bounds(2) by (intro mult_mono) simp_all
  moreover have "\<bar>4 * (1 / 10 ^ 7) * 320 * q - 9 / 10 ^ 4\<bar> \<le> (9 / 10 ^ 4) / 100"
    if "312 / 100 * (2236 / 1000) \<le> q" "q \<le> 316 / 100 * (2237 / 1000)" for q :: real
    using that by (intro abs_leI) simp_all
  ultimately have "\<bar>4 * (1 / 10 ^ 7) * 320 * (pi * sqrt 5) - 9 / 10 ^ 4\<bar> \<le> (9 / 10 ^ 4) / 100"
    by blast
  moreover have "4 * (1 / 10 ^ 7) * 320 * (pi * sqrt 5) = 4 * pi * (1 / 10 ^ 7) * 320 * sqrt 5"
    by simp
  ultimately have near: "\<bar>4 * pi * (1 / 10 ^ 7) * 320 * sqrt 5 - 9 / 10 ^ 4\<bar> \<le> (9 / 10 ^ 4) / 100"
    by (simp only:)
  have "0 \<le> 4 * pi * (1 / 10 ^ 7) * 320 * sqrt 5"
    by simp
  then have rel: "\<bar>4 * pi * (1 / 10 ^ 7) * 320 * sqrt 5 - 4 * pi * (1 / 10 ^ 7) * 320 * sqrt 5\<bar>
          \<le> (4 * pi * (1 / 10 ^ 7) * 320 * sqrt 5) / 100"
    by simp
  show ?thesis
    unfolding formula_value using h near rel by blast
qed

section \<open>Linearity in the current\<close>

lemma loopFieldMeters_scale:
  "loopFieldMeters x y z R (Fin k * I) N = map_res (scale_vec (Fin k)) (loopFieldMeters x y z R I N)"
  unfolding loopFieldMeters_def Let_def map_res_def and_then_def returns_def scale_vec_def
  by (auto split: option.splits sum.splits
           simp: scale_mult_left scale_mult_mid scale_div scale_add scale_neg)

lemma loopField_scale:
  "loopField (Fin k * I) N xp yp zp a x0 = map_res (scale_vec (Fin k)) (loopField I N xp yp zp a x0)"
  unfolding loopField_def Let_def map_res_def and_then_def returns_def scale_vec_def
  by (auto split: option.splits sum.splits
           simp: scale_mult_left scale_mult_mid scale_div scale_add scale_neg)

lemma scale_add_vec:
  "add_vec (scale_vec (Fin k) u) (scale_vec (Fin k) v) = scale_vec (Fin k) (add_vec u v)"
  by (cases u; cases v) (simp add: add_vec_def scale_vec_def scale_add)

lemma helmholtz_scale:
  "helmholtzField x y z R (Fin k * V) Omega N =
     map_res (scale_vec (Fin k)) (helmholtzField x y z R V Omega N)"
  unfolding helmholtz_sum Let_def scale_div loopField_scale
  by (auto simp: map_res_def and_then_def returns_def scale_add_vec split: option.splits sum.splits)

lemma magnitude_scale: "magnitude (scale_vec (Fin k) v) = Fin \<bar>k\<bar> * magnitude v"
  by (cases v) (simp add: magnitude_def scale_vec_def hypot3_scale)

text \<open>
  C7. The field is linear in the current: for every finite factor \<open>k\<close>, the vector that
  \<open>loopFieldMeters\<close> returns for the current \<open>k I\<close> is \<open>k\<close> times the one for \<open>I\<close>, the
  vector that \<open>helmholtzField\<close> returns for the voltage \<open>k V\<close> is \<open>k\<close> times the one for
  \<open>V\<close> at the same resistance, and the magnitudes are multiplied by \<open>|k|\<close>. With
  \<open>k = 2\<close>: twice the current, or twice the voltage, gives twice the field. Where the
  computation throws for \<open>I\<close> or \<open>V\<close>, it throws for the multiple as well.
\<close>

theorem field_scales_with_current:
  "loopFieldMeters x y z R (Fin k * I) N = map_res (scale_vec (Fin k)) (loopFieldMeters x y z R I N)
   \<and> helmholtzField x y z R (Fin k * V) Omega N =
       map_res (scale_vec (Fin k)) (helmholtzField x y z R V Omega N)
   \<and> map_res magnitude (loopFieldMeters x y z R (Fin k * I) N) =
       map_res (\<lambda>v. Fin \<bar>k\<bar> * magnitude v) (loopFieldMeters x y z R I N)
   \<and> map_res magnitude (helmholtzField x y z R (Fin k * V) Omega N) =
       map_res (\<lambda>v. Fin \<bar>k\<bar> * magnitude v) (helmholtzField x y z R V Omega N)"
  unfolding loopFieldMeters_scale helmholtz_scale
  by (auto simp: map_res_def and_then_def returns_def magnitude_scale split: option.splits sum.splits)

section \<open>Mirror symmetry of the pair\<close>

lemma loopField_mirror:
  "loopField I N (- xp) yp zp a (- x0) = map_res mirror_yz (loopField I N xp yp zp a x0)"
  unfolding loopField_def Let_def map_res_def and_then_def returns_def mirror_yz_def neg_sub neg_sq
  by (auto split: option.splits sum.splits simp: neg_mult_left neg_mult_right neg_div_left)

lemma hypot2_axis_nonneg: "0 \<le> a \<Longrightarrow> Math_hypot2 (Fin a) (Fin 0) = Fin a"
  by simp

lemma loopField_returns:
  fixes a rho zax :: real
  assumes "Math_hypot2 yp zp = Fin rho" "rho \<noteq> 0" "xp - x0 = Fin zax"
      and "0 \<le> 4 * a * rho / ((a + rho) * (a + rho) + zax * zax)"
      and "4 * a * rho / ((a + rho) * (a + rho) + zax * zax) < 1"
      and "(a + rho) * (a + rho) + zax * zax \<noteq> 0"
  shows "\<exists>v. loopField I N xp yp zp (Fin a) x0 = returns v"
proof -
  let ?k = "4 * a * rho / ((a + rho) * (a + rho) + zax * zax)"
  obtain K E where KE: "ellipticKE (Fin ?k) = returns (K, E)"
    using ellipticKE_returns [OF assms(4,5)] by blast
  have kSq: "(Fin 4 * Fin a * Fin rho) / (Math_pow_2 (Fin a + Fin rho) + Fin zax * Fin zax) = Fin ?k"
    using assms(6) by simp
  have rho: "Fin rho \<noteq> Fin 0"
    using assms(2) by simp
  show ?thesis
    unfolding loopField_def Let_def assms(1) assms(3) kSq KE
    using rho by (simp add: and_then_def returns_def)
qed

text \<open>
  C10. Where \<open>helmholtzField\<close> returns a vector at \<open>(x, y, z)\<close>, it returns at
  \<open>(-x, y, z)\<close> a vector with the same \<open>Bx\<close> (and with \<open>By\<close> and \<open>Bz\<close> negated), all
  other arguments being the same.
\<close>

theorem helmholtz_mirror_symmetric:
  assumes "helmholtzField x y z R V Omega N = returns (bx, by, bz)"
  shows "helmholtzField (- x) y z R V Omega N = returns (bx, - by, - bz)"
proof -
  let ?I = "V / Omega"
  let ?x = "x * Fin (1 / 10 ^ 2)"
  let ?y = "y * Fin (1 / 10 ^ 2)"
  let ?z = "z * Fin (1 / 10 ^ 2)"
  let ?R = "R * Fin (1 / 10 ^ 2)"
  let ?L1 = "loopField ?I N ?x ?y ?z ?R (- (?R / Fin 2))"
  let ?L2 = "loopField ?I N ?x ?y ?z ?R (?R / Fin 2)"
  have at_x: "helmholtzField x y z R V Omega N =
      and_then ?L1 (\<lambda>b1. and_then ?L2 (\<lambda>b2. returns (add_vec b1 b2)))"
    by (simp add: helmholtz_sum Let_def neg_div_left)
  have m1: "loopField ?I N (- ?x) ?y ?z ?R (- (?R / Fin 2)) = map_res mirror_yz ?L2"
    by (rule loopField_mirror)
  have m2: "loopField ?I N (- ?x) ?y ?z ?R (?R / Fin 2) = map_res mirror_yz ?L1"
    using loopField_mirror [of ?I N ?x ?y ?z ?R "- (?R / Fin 2)"] by simp
  have at_mx: "helmholtzField (- x) y z R V Omega N =
      and_then (map_res mirror_yz ?L2)
        (\<lambda>b1. and_then (map_res mirror_yz ?L1) (\<lambda>b2. returns (add_vec b1 b2)))"
    unfolding helmholtz_sum Let_def neg_div_left neg_mult_left m1 m2 ..
  from assms at_x obtain u v where u: "?L1 = returns u" and v: "?L2 = returns v"
    and uv: "add_vec u v = (bx, by, bz)"
    by (auto simp: and_then_def returns_def split: option.splits sum.splits)
  have "add_vec (mirror_yz v) (mirror_yz u) = (bx, - by, - bz)"
    using uv
    by (cases u; cases v) (auto simp: add_vec_def mirror_yz_def add_commute_number neg_add_number)
  then show ?thesis
    unfolding at_mx u v by (simp add: map_res_def and_then_def returns_def)
qed

theorem helmholtz_mirror_symmetric_witness:
  "\<exists>bx by bz.
     helmholtzField (Fin 1) (Fin 2) (Fin 0) (Fin 10) (Fin 10) (Fin 10) (Fin 100) = returns (bx, by, bz)
     \<and> helmholtzField (- Fin 1) (Fin 2) (Fin 0) (Fin 10) (Fin 10) (Fin 10) (Fin 100) =
         returns (bx, - by, - bz)"
proof -
  have "\<exists>v. loopField (Fin 1) (Fin 100) (Fin (1 / 100)) (Fin (1 / 50)) (Fin 0) (Fin (1 / 10)) (Fin (- (1 / 20)))
          = returns v"
    by (rule loopField_returns [where rho = "1 / 50" and zax = "3 / 50"])
       (simp_all add: hypot2_axis_nonneg del: Math_hypot2.simps hypot2_axis)
  then obtain u where u: "loopField (Fin 1) (Fin 100) (Fin (1 / 100)) (Fin (1 / 50)) (Fin 0) (Fin (1 / 10)) (Fin (- (1 / 20)))
          = returns u" ..
  have "\<exists>v. loopField (Fin 1) (Fin 100) (Fin (1 / 100)) (Fin (1 / 50)) (Fin 0) (Fin (1 / 10)) (Fin (1 / 20))
          = returns v"
    by (rule loopField_returns [where rho = "1 / 50" and zax = "- (1 / 25)"])
       (simp_all add: hypot2_axis_nonneg del: Math_hypot2.simps hypot2_axis)
  then obtain v where v: "loopField (Fin 1) (Fin 100) (Fin (1 / 100)) (Fin (1 / 50)) (Fin 0) (Fin (1 / 10)) (Fin (1 / 20))
          = returns v" ..
  obtain bx "by" bz where b: "add_vec u v = (bx, by, bz)"
    by (cases "add_vec u v") 
  have h: "helmholtzField (Fin 1) (Fin 2) (Fin 0) (Fin 10) (Fin 10) (Fin 10) (Fin 100) = returns (bx, by, bz)"
    using u v b by (simp add: helmholtz_sum Let_def and_then_def returns_def)
  show ?thesis
    using h helmholtz_mirror_symmetric [OF h] by blast
qed

section \<open>Validation in the click handlers\<close>

text \<open>
  C8. On an invalid input (a field that parsed to \<open>NaN\<close>; \<open>R\<close>, \<open>Omega\<close> or \<open>N\<close> zero or
  negative, so also \<open>N = -1\<close>) the handler of either page ends with one of the error
  messages in the error element and with the output element as it was. The result is
  the same for every field computation put in the place of \<open>coilFieldWithGrad\<close> or
  \<open>helmholtzField\<close>: the handler returns before it calls it.
\<close>

theorem invalid_input_rejected:
  assumes "invalid_input [x, y, z, IV] R Omega N"
  shows "\<exists>msg. sc_on_click x y z R IV Omega N p = Some (p\<lparr>error_text := Some msg\<rparr>)
             \<and> hh_on_click x y z R IV Omega N q = Some (q\<lparr>error_text := Some msg\<rparr>)
             \<and> (\<forall>field. sc_on_click_with field x y z R IV Omega N p =
                   sc_on_click x y z R IV Omega N p)
             \<and> (\<forall>field. hh_on_click_with field x y z R IV Omega N q =
                   hh_on_click x y z R IV Omega N q)"
  using assms
  by (auto simp: invalid_input_def sc_on_click_def hh_on_click_def sc_on_click_with_def
                 hh_on_click_with_def showError_def Let_def)

theorem invalid_input_rejected_witness:
  "invalid_input [Fin 1, Fin 2, Fin 3, Fin 4] (Fin 0) (Fin 10) (Fin 100) \<and>
   (\<exists>msg. sc_on_click (Fin 1) (Fin 2) (Fin 3) (Fin 0) (Fin 4) (Fin 10) (Fin 100)
             \<lparr>error_text = None, output_text = None\<rparr> =
           Some (\<lparr>error_text = None, output_text = None\<rparr>\<lparr>error_text := Some msg\<rparr>)
        \<and> hh_on_click (Fin 1) (Fin 2) (Fin 3) (Fin 0) (Fin 4) (Fin 10) (Fin 100)
             \<lparr>error_text = None, output_text = None\<rparr> =
           Some (\<lparr>error_text = None, output_text = None\<rparr>\<lparr>error_text := Some msg\<rparr>)
        \<and> (\<forall>field. sc_on_click_with field (Fin 1) (Fin 2) (Fin 3) (Fin 0) (Fin 4) (Fin 10) (Fin 100)
                       \<lparr>error_text = None, output_text = None\<rparr> =
                    sc_on_click (Fin 1) (Fin 2) (Fin 3) (Fin 0) (Fin 4) (Fin 10) (Fin 100)
                       \<lparr>error_text = None, output_text = None\<rparr>)
        \<and> (\<forall>field. hh_on_click_with field (Fin 1) (Fin 2) (Fin 3) (Fin 0) (Fin 4) (Fin 10) (Fin 100)
                       \<lparr>error_text = None, output_text = None\<rparr> =
                    hh_on_click (Fin 1) (Fin 2) (Fin 3) (Fin 0) (Fin 4) (Fin 10) (Fin 100)
                       \<lparr>error_text = None, output_text = None\<rparr>))"
proof -
  have inv: "invalid_input [Fin 1, Fin 2, Fin 3, Fin 4] (Fin 0) (Fin 10) (Fin 100)"
    by (simp add: invalid_input_def Number_isNaN_def)
  show ?thesis
    using inv invalid_input_rejected [OF inv] by blast
qed

section \<open>The parameter passed to \<open>ellipticKE\<close>\<close>

text \<open>
  \<open>loopFieldMeters\<close> clamps the parameter into \<open>[0, 1 - 1e-14]\<close> (or passes a \<open>NaN\<close> on),
  so its call of \<open>ellipticKE\<close> returns, and so does \<open>loopFieldMeters\<close>, for every
  input: see \<open>loopFieldMeters_returns\<close>. \<open>loopField\<close> of the Helmholtz page has no clamp.
  At a point of the wire of a loop (\<open>rho = a\<close> and \<open>zax = 0\<close>) its parameter is exactly 1.
\<close>

lemma loopField_on_wire:
  assumes "0 < a"
  shows "loopField I N (Fin x0) (Fin a) (Fin 0) (Fin a) (Fin x0) = throws DomainError"
proof -
  have rho: "Math_hypot2 (Fin a) (Fin 0) = Fin a"
    using assms by simp
  have "(4 * a * a) / ((a + a) * (a + a) + (x0 - x0) * (x0 - x0)) = 1"
    using assms by (simp add: field_simps)
  then have kSq: "(Fin 4 * Fin a * Fin a) / (Math_pow_2 (Fin a + Fin a) + (Fin x0 - Fin x0) * (Fin x0 - Fin x0)) = Fin 1"
    using assms by simp
  have "ellipticKE (Fin 1) = throws DomainError"
    by (simp add: ellipticKE_def)
  then show ?thesis
    using assms unfolding loopField_def Let_def rho kSq
    by (simp add: and_then_def throws_def)
qed

text \<open>
  C2. The claim says that no field computation raises the error of \<open>ellipticKE\<close>. The
  Helmholtz page does at a point on the wire of its first loop: with \<open>R = 10 cm\<close> the
  loop at \<open>x = -5 cm\<close> has its wire at distance \<open>10 cm\<close> from the axis.
\<close>

theorem helmholtz_throws_on_the_wire:
  "helmholtzField (Fin (- 5)) (Fin 10) (Fin 0) (Fin 10) (Fin 10) (Fin 10) (Fin 100) = throws DomainError"
proof -
  have "loopField (Fin 1) (Fin 100) (Fin (- (1 / 20))) (Fin (1 / 10)) (Fin 0) (Fin (1 / 10)) (Fin (- (1 / 20)))
        = throws DomainError"
    by (rule loopField_on_wire) simp
  then show ?thesis
    by (simp add: helmholtz_sum Let_def and_then_def throws_def)
qed

text \<open>
  C3. The claim says that for every input with \<open>R > 0\<close> and \<open>Omega \<noteq> 0\<close> the function
  \<open>helmholtzField\<close> returns the sum of the fields of the two loops. With \<open>R = 10 cm\<close>,
  \<open>V = 10\<close>, \<open>Omega = 10\<close> and \<open>N = 100\<close>, at the point \<open>(5, 10, 0) cm\<close> on the wire of the
  second loop, the evaluation for the loop at \<open>-R/2\<close> returns a vector, the evaluation
  for the loop at \<open>+R/2\<close> throws, and \<open>helmholtzField\<close> returns no vector: it throws. The
  cause is the missing clamp in \<open>loopField\<close>. Away from it the sum is returned: see
  \<open>helmholtz_componentwise_sum\<close>.
\<close>

theorem helmholtz_returns_no_sum_on_the_wire:
  "(\<exists>b1. loopField (Fin (10 / 10)) (Fin 100) (Fin (5 / 100)) (Fin (10 / 100)) (Fin (0 / 100))
            (Fin (10 / 100)) (Fin (- (10 / 100) / 2)) = returns b1)
   \<and> loopField (Fin (10 / 10)) (Fin 100) (Fin (5 / 100)) (Fin (10 / 100)) (Fin (0 / 100))
            (Fin (10 / 100)) (Fin ((10 / 100) / 2)) = throws DomainError
   \<and> helmholtzField (Fin 5) (Fin 10) (Fin 0) (Fin 10) (Fin 10) (Fin 10) (Fin 100) = throws DomainError"
proof -
  have "\<exists>b1. loopField (Fin 1) (Fin 100) (Fin (1 / 20)) (Fin (1 / 10)) (Fin 0)
                (Fin (1 / 10)) (Fin (- (1 / 20))) = returns b1"
    by (rule loopField_returns [where rho = "1 / 10" and zax = "1 / 10"])
       (simp_all add: hypot2_axis_nonneg del: Math_hypot2.simps hypot2_axis)
  then obtain b1 where b1: "loopField (Fin 1) (Fin 100) (Fin (1 / 20)) (Fin (1 / 10)) (Fin 0)
                (Fin (1 / 10)) (Fin (- (1 / 20))) = returns b1"
    by blast
  have b2: "loopField (Fin 1) (Fin 100) (Fin (1 / 20)) (Fin (1 / 10)) (Fin 0) (Fin (1 / 10)) (Fin (1 / 20))
        = throws DomainError"
    by (rule loopField_on_wire) simp
  have h: "helmholtzField (Fin 5) (Fin 10) (Fin 0) (Fin 10) (Fin 10) (Fin 10) (Fin 100) = throws DomainError"
    using b1 b2 by (simp add: helmholtz_sum Let_def and_then_def throws_def returns_def)
  have t1: "loopField (Fin (10 / 10)) (Fin 100) (Fin (5 / 100)) (Fin (10 / 100)) (Fin (0 / 100))
            (Fin (10 / 100)) (Fin (- (10 / 100) / 2)) = returns b1"
    using b1 by simp
  have t2: "loopField (Fin (10 / 10)) (Fin 100) (Fin (5 / 100)) (Fin (10 / 100)) (Fin (0 / 100))
            (Fin (10 / 100)) (Fin ((10 / 100) / 2)) = throws DomainError"
    using b2 by simp
  show ?thesis
    using t1 t2 h by blast
qed

section \<open>The gradient of the magnitude\<close>

lemma or_zero_Fin: "or_zero (Fin v) = Fin v"
  by (simp add: or_zero_def)

lemma h_value:
  "Math_max (Fin (1 / 10 ^ 5)) (or_zero (Fin R * Fin (1 / 10 ^ 4))) = Fin (step_size R)"
  unfolding times_number.simps or_zero_Fin Math_max_Fin step_size_def ..

lemma add_zero_number [simp]: "v + Fin 0 = v"
  by (cases v) simp_all

lemma magAt_magnitude:
  "loopFieldMeters (x + dx) (y + dy) (z + dz) R I N = returns b \<Longrightarrow>
   magAt x y z R I N dx dy dz = returns (magnitude b)"
  by (cases b) (simp add: magAt_def and_then_def returns_def magnitude_def)

text \<open>
  Forgetting the log of \<open>coilFieldWithGrad_logged\<close> gives \<open>coilFieldWithGrad\<close>, for every
  input and every log to start from.
\<close>

lemma erases_returns: "erases_to (returns_logged v) (returns v)"
  by (simp add: erases_to_def returns_logged_def)

lemma erases_call: "erases_to (call_loopFieldMeters x y z R I N) (loopFieldMeters x y z R I N)"
  by (simp add: erases_to_def call_loopFieldMeters_def)

lemma erases_and_then:
  assumes "erases_to m r" and "\<And>v. erases_to (k v) (k' v)"
  shows "erases_to (and_then_logged m k) (and_then r k')"
  unfolding erases_to_def
proof
  fix calls
  have r: "fst (m calls) = r" using assms(1) by (simp add: erases_to_def)
  show "fst (and_then_logged m k calls) = and_then r k'"
  proof (cases "m calls")
    case (Pair res calls')
    then have "res = r" using r by simp
    then show ?thesis
      using Pair assms(2)
      by (auto simp: and_then_logged_def and_then_def erases_to_def split: option.splits sum.splits)
  qed
qed

lemma erases_magAt:
  "erases_to (magAt_logged x y z R I N dx dy dz) (magAt x y z R I N dx dy dz)"
  unfolding magAt_logged_def magAt_def
  by (intro erases_and_then erases_call) (auto simp: erases_returns)

lemma erases_coilFieldWithGrad:
  "erases_to (coilFieldWithGrad_logged x y z R I N) (coilFieldWithGrad x y z R I N)"
  unfolding coilFieldWithGrad_logged_def coilFieldWithGrad_def Let_def
  by (intro erases_and_then erases_call erases_magAt erases_returns)

lemma coilFieldWithGrad_logged_result:
  "fst (coilFieldWithGrad_logged x y z R I N calls) = coilFieldWithGrad x y z R I N"
  using erases_coilFieldWithGrad by (simp add: erases_to_def)

lemma and_then_logged_returns:
  "m calls = (returns v, calls') \<Longrightarrow> and_then_logged m k calls = k v calls'"
  by (simp add: and_then_logged_def returns_def)

lemma magAt_logged_magnitude:
  "loopFieldMeters (x + dx) (y + dy) (z + dz) R I N = returns b \<Longrightarrow>
   magAt_logged x y z R I N dx dy dz calls =
     (returns (magnitude b), calls @ [(x + dx, y + dy, z + dz, R, I, N)])"
  by (cases b)
     (simp add: magAt_logged_def and_then_logged_def call_loopFieldMeters_def returns_logged_def
                returns_def magnitude_def)

text \<open>
  C6. For finite inputs \<open>coilFieldWithGrad\<close> returns the field at the point, its
  magnitude, and for each axis the centred difference of the magnitudes of
  \<open>loopFieldMeters\<close> at the two points one step \<open>h\<close> away along that axis, divided by
  \<open>2 h\<close>, with \<open>h = max(1e-5, R 1e-4)\<close> for the radius in metres. Each of these
  evaluations returns. The logged function returns the same record and appends exactly
  seven calls of \<open>loopFieldMeters\<close> to the log: the one at the point itself, then the six
  at \<open>x + h\<close>, \<open>x - h\<close>, \<open>y + h\<close>, \<open>y - h\<close>, \<open>z + h\<close>, \<open>z - h\<close>, in this order, and no other.
\<close>

theorem gradient_is_central_difference:
  fixes x y z R I N :: real
  shows "\<exists>b0 bxp bxm byp bym bzp bzm.
     loopFieldMeters (Fin (x / 100)) (Fin (y / 100)) (Fin (z / 100)) (Fin (R / 100)) (Fin I) (Fin N)
       = returns b0
   \<and> loopFieldMeters (Fin (x / 100 + step_size (R / 100))) (Fin (y / 100)) (Fin (z / 100))
         (Fin (R / 100)) (Fin I) (Fin N) = returns bxp
   \<and> loopFieldMeters (Fin (x / 100 - step_size (R / 100))) (Fin (y / 100)) (Fin (z / 100))
         (Fin (R / 100)) (Fin I) (Fin N) = returns bxm
   \<and> loopFieldMeters (Fin (x / 100)) (Fin (y / 100 + step_size (R / 100))) (Fin (z / 100))
         (Fin (R / 100)) (Fin I) (Fin N) = returns byp
   \<and> loopFieldMeters (Fin (x / 100)) (Fin (y / 100 - step_size (R / 100))) (Fin (z / 100))
         (Fin (R / 100)) (Fin I) (Fin N) = returns bym
   \<and> loopFieldMeters (Fin (x / 100)) (Fin (y / 100)) (Fin (z / 100 + step_size (R / 100)))
         (Fin (R / 100)) (Fin I) (Fin N) = returns bzp
   \<and> loopFieldMeters (Fin (x / 100)) (Fin (y / 100)) (Fin (z / 100 - step_size (R / 100)))
         (Fin (R / 100)) (Fin I) (Fin N) = returns bzm
   \<and> coilFieldWithGrad (Fin x) (Fin y) (Fin z) (Fin R) (Fin I) (Fin N) =
       returns \<lparr>B = b0, Bmag = magnitude b0,
                grad = ((magnitude bxp - magnitude bxm) / Fin (2 * step_size (R / 100)),
                        (magnitude byp - magnitude bym) / Fin (2 * step_size (R / 100)),
                        (magnitude bzp - magnitude bzm) / Fin (2 * step_size (R / 100)))\<rparr>
   \<and> coilFieldWithGrad_logged (Fin x) (Fin y) (Fin z) (Fin R) (Fin I) (Fin N) calls =
       (returns \<lparr>B = b0, Bmag = magnitude b0,
                grad = ((magnitude bxp - magnitude bxm) / Fin (2 * step_size (R / 100)),
                        (magnitude byp - magnitude bym) / Fin (2 * step_size (R / 100)),
                        (magnitude bzp - magnitude bzm) / Fin (2 * step_size (R / 100)))\<rparr>,
        calls @
        [(Fin (x / 100), Fin (y / 100), Fin (z / 100), Fin (R / 100), Fin I, Fin N),
         (Fin (x / 100 + step_size (R / 100)), Fin (y / 100), Fin (z / 100), Fin (R / 100), Fin I, Fin N),
         (Fin (x / 100 - step_size (R / 100)), Fin (y / 100), Fin (z / 100), Fin (R / 100), Fin I, Fin N),
         (Fin (x / 100), Fin (y / 100 + step_size (R / 100)), Fin (z / 100), Fin (R / 100), Fin I, Fin N),
         (Fin (x / 100), Fin (y / 100 - step_size (R / 100)), Fin (z / 100), Fin (R / 100), Fin I, Fin N),
         (Fin (x / 100), Fin (y / 100), Fin (z / 100 + step_size (R / 100)), Fin (R / 100), Fin I, Fin N),
         (Fin (x / 100), Fin (y / 100), Fin (z / 100 - step_size (R / 100)), Fin (R / 100), Fin I, Fin N)])"
proof -
  define h where "h = step_size (R / 100)"
  let ?lf = "\<lambda>u v w. loopFieldMeters (Fin u) (Fin v) (Fin w) (Fin (R / 100)) (Fin I) (Fin N)"
  obtain b0 where b0: "?lf (x / 100) (y / 100) (z / 100) = returns b0"
    using loopFieldMeters_returns by blast
  obtain bxp where bxp: "?lf (x / 100 + h) (y / 100) (z / 100) = returns bxp"
    using loopFieldMeters_returns by blast
  obtain bxm where bxm: "?lf (x / 100 - h) (y / 100) (z / 100) = returns bxm"
    using loopFieldMeters_returns by blast
  obtain byp where byp: "?lf (x / 100) (y / 100 + h) (z / 100) = returns byp"
    using loopFieldMeters_returns by blast
  obtain bym where bym: "?lf (x / 100) (y / 100 - h) (z / 100) = returns bym"
    using loopFieldMeters_returns by blast
  obtain bzp where bzp: "?lf (x / 100) (y / 100) (z / 100 + h) = returns bzp"
    using loopFieldMeters_returns by blast
  obtain bzm where bzm: "?lf (x / 100) (y / 100) (z / 100 - h) = returns bzm"
    using loopFieldMeters_returns by blast
  let ?magAt = "magAt (Fin (x / 100)) (Fin (y / 100)) (Fin (z / 100)) (Fin (R / 100)) (Fin I) (Fin N)"
  have m: "?magAt (Fin h) (Fin 0) (Fin 0) = returns (magnitude bxp)"
          "?magAt (- Fin h) (Fin 0) (Fin 0) = returns (magnitude bxm)"
          "?magAt (Fin 0) (Fin h) (Fin 0) = returns (magnitude byp)"
          "?magAt (Fin 0) (- Fin h) (Fin 0) = returns (magnitude bym)"
          "?magAt (Fin 0) (Fin 0) (Fin h) = returns (magnitude bzp)"
          "?magAt (Fin 0) (Fin 0) (- Fin h) = returns (magnitude bzm)"
    using bxp bxm byp bym bzp bzm by (simp_all add: magAt_magnitude)
  let ?magL = "magAt_logged (Fin (x / 100)) (Fin (y / 100)) (Fin (z / 100)) (Fin (R / 100)) (Fin I) (Fin N)"
  let ?at = "\<lambda>u v w. (Fin u, Fin v, Fin w, Fin (R / 100), Fin I, Fin N)"
  have ml: "\<And>c. ?magL (Fin h) (Fin 0) (Fin 0) c = (returns (magnitude bxp), c @ [?at (x / 100 + h) (y / 100) (z / 100)])"
           "\<And>c. ?magL (Fin (- h)) (Fin 0) (Fin 0) c = (returns (magnitude bxm), c @ [?at (x / 100 - h) (y / 100) (z / 100)])"
           "\<And>c. ?magL (Fin 0) (Fin h) (Fin 0) c = (returns (magnitude byp), c @ [?at (x / 100) (y / 100 + h) (z / 100)])"
           "\<And>c. ?magL (Fin 0) (Fin (- h)) (Fin 0) c = (returns (magnitude bym), c @ [?at (x / 100) (y / 100 - h) (z / 100)])"
           "\<And>c. ?magL (Fin 0) (Fin 0) (Fin h) c = (returns (magnitude bzp), c @ [?at (x / 100) (y / 100) (z / 100 + h)])"
           "\<And>c. ?magL (Fin 0) (Fin 0) (Fin (- h)) c = (returns (magnitude bzm), c @ [?at (x / 100) (y / 100) (z / 100 - h)])"
    using bxp bxm byp bym bzp bzm by (simp_all add: magAt_logged_magnitude)
  have base: "\<And>c. call_loopFieldMeters (Fin (x / 100)) (Fin (y / 100)) (Fin (z / 100)) (Fin (R / 100)) (Fin I) (Fin N) c
                = (returns b0, c @ [?at (x / 100) (y / 100) (z / 100)])"
    using b0 by (simp add: call_loopFieldMeters_def)
  have units: "Fin x * Fin (1 / 10 ^ 2) = Fin (x / 100)" "Fin y * Fin (1 / 10 ^ 2) = Fin (y / 100)"
              "Fin z * Fin (1 / 10 ^ 2) = Fin (z / 100)" "Fin R * Fin (1 / 10 ^ 2) = Fin (R / 100)"
    by simp_all
  have hv: "Math_max (Fin (1 / 10 ^ 5)) (or_zero (Fin (R / 100) * Fin (1 / 10 ^ 4))) = Fin h"
    unfolding h_def by (rule h_value)
  have two_h: "Fin 2 * Fin h = Fin (2 * h)"
    by simp
  have plain: "coilFieldWithGrad (Fin x) (Fin y) (Fin z) (Fin R) (Fin I) (Fin N) =
       returns \<lparr>B = b0, Bmag = magnitude b0,
                grad = ((magnitude bxp - magnitude bxm) / Fin (2 * h),
                        (magnitude byp - magnitude bym) / Fin (2 * h),
                        (magnitude bzp - magnitude bzm) / Fin (2 * h))\<rparr>"
    unfolding coilFieldWithGrad_def Let_def units hv b0 m two_h
    by (cases b0) (simp add: and_then_def returns_def magnitude_def)
  have logged: "coilFieldWithGrad_logged (Fin x) (Fin y) (Fin z) (Fin R) (Fin I) (Fin N) calls =
       (returns \<lparr>B = b0, Bmag = magnitude b0,
                grad = ((magnitude bxp - magnitude bxm) / Fin (2 * h),
                        (magnitude byp - magnitude bym) / Fin (2 * h),
                        (magnitude bzp - magnitude bzm) / Fin (2 * h))\<rparr>,
        calls @ [?at (x / 100) (y / 100) (z / 100),
                 ?at (x / 100 + h) (y / 100) (z / 100), ?at (x / 100 - h) (y / 100) (z / 100),
                 ?at (x / 100) (y / 100 + h) (z / 100), ?at (x / 100) (y / 100 - h) (z / 100),
                 ?at (x / 100) (y / 100) (z / 100 + h), ?at (x / 100) (y / 100) (z / 100 - h)])"
    unfolding coilFieldWithGrad_logged_def Let_def units hv two_h
    by (cases b0)
       (simp add: and_then_logged_returns [OF base] and_then_logged_returns [OF ml(1)]
          and_then_logged_returns [OF ml(2)] and_then_logged_returns [OF ml(3)]
          and_then_logged_returns [OF ml(4)] and_then_logged_returns [OF ml(5)]
          and_then_logged_returns [OF ml(6)] returns_logged_def magnitude_def)
  show ?thesis
    using b0 bxp bxm byp bym bzp bzm plain logged unfolding h_def by blast
qed


end
